theory Spec2Isabelle
  imports Complex_Main
begin

section \<open>JavaScript values\<close>

subsection \<open>Strings\<close>

text \<open>
  A JavaScript string is a sequence of UTF-16 code units, and \<open>length\<close> counts them; a
  code unit is modelled by its number. \<open>str\<close> turns a literal of ASCII characters into
  such a string.
\<close>

type_synonym jsstring = "nat list"

definition str :: "string \<Rightarrow> jsstring" where
  "str s = map of_char s"

text \<open>
  \<open>WhiteSpace\<close> and \<open>LineTerminator\<close> of ECMAScript: what \<open>String.prototype.trim\<close>
  strips and what \<open>\s\<close> matches in a regular expression.
\<close>

definition isSpace :: "nat \<Rightarrow> bool" where
  "isSpace c \<longleftrightarrow>
     c = 9 \<or> c = 10 \<or> c = 11 \<or> c = 12 \<or> c = 13 \<or> c = 32 \<or> c = 160 \<or> c = 5760 \<or>
     (8192 \<le> c \<and> c \<le> 8202) \<or> c = 8232 \<or> c = 8233 \<or> c = 8239 \<or> c = 8287 \<or>
     c = 12288 \<or> c = 65279"

definition trimStart :: "jsstring \<Rightarrow> jsstring" where
  "trimStart s = dropWhile isSpace s"

definition trimEnd :: "jsstring \<Rightarrow> jsstring" where
  "trimEnd s = rev (dropWhile isSpace (rev s))"

definition trim :: "jsstring \<Rightarrow> jsstring" where
  "trim s = trimEnd (trimStart s)"

text \<open>
  \<open>toLowerCase\<close> on the Basic Latin and Latin-1 letters; the case mappings of code
  units above U+00FF are not modelled, such a code unit is left as it is.
\<close>

definition lowerUnit :: "nat \<Rightarrow> nat" where
  "lowerUnit c =
     (if 65 \<le> c \<and> c \<le> 90 then c + 32
      else if 192 \<le> c \<and> c \<le> 222 \<and> c \<noteq> 215 then c + 32
      else c)"

definition toLowerCase :: "jsstring \<Rightarrow> jsstring" where
  "toLowerCase s = map lowerUnit s"

fun startsWith :: "jsstring \<Rightarrow> jsstring \<Rightarrow> bool" where
  "startsWith s [] = True"
| "startsWith [] (p # ps) = False"
| "startsWith (c # cs) (p # ps) = (c = p \<and> startsWith cs ps)"

text \<open>\<open>s.includes(p)\<close>: \<open>p\<close> occurs in \<open>s\<close> as a substring.\<close>

fun includesStr :: "jsstring \<Rightarrow> jsstring \<Rightarrow> bool" where
  "includesStr [] p = (p = [])"
| "includesStr (c # cs) p = (startsWith (c # cs) p \<or> includesStr cs p)"

text \<open>
  \<open>s.split(sep)\<close>: the pieces between the occurrences of \<open>sep\<close>, found from left
  to right; the empty string gives one empty piece, and the empty separator cuts between
  all code units. \<open>splitAcc\<close> carries the piece read so far, reversed.
\<close>

fun splitAcc :: "jsstring \<Rightarrow> jsstring \<Rightarrow> jsstring \<Rightarrow> jsstring list" where
  "splitAcc sep acc [] = [rev acc]"
| "splitAcc sep acc (c # cs) =
     (if startsWith (c # cs) sep
      then rev acc # splitAcc sep [] (drop (length sep - 1) cs)
      else splitAcc sep (c # acc) cs)"

definition splitStr :: "jsstring \<Rightarrow> jsstring \<Rightarrow> jsstring list" where
  "splitStr s sep = (if sep = [] then map (\<lambda>c. [c]) s else splitAcc sep [] s)"

text \<open>\<open>parts.join(sep)\<close>.\<close>

fun join :: "jsstring list \<Rightarrow> jsstring \<Rightarrow> jsstring" where
  "join [] sep = []"
| "join [x] sep = x"
| "join (x # y # ys) sep = x @ sep @ join (y # ys) sep"


definition NL :: jsstring where
  "NL = [10]"

subsection \<open>Untyped values and object literals\<close>

text \<open>
  A value of type \<open>unknown\<close> (a front-matter entry, an indexed field) is used by the code
  through three observations only: whether it is \<open>null\<close> or \<open>undefined\<close>, what
  \<open>String(v)\<close> gives, and whether it is truthy. \<open>JOther s t\<close> is any value that is neither
  nullish nor a string, with its string conversion \<open>s\<close> and its truthiness \<open>t\<close>.
  A \<open>Record<string, unknown>\<close> is the list of its entries in property order; the keys
  of an object are distinct.
\<close>

datatype jsval = JNull | JStr jsstring | JOther jsstring bool

fun String :: "jsval \<Rightarrow> jsstring" where
  "String JNull = str ''null''"
| "String (JStr s) = s"
| "String (JOther s t) = s"

fun truthy :: "jsval option \<Rightarrow> bool" where
  "truthy None = False"
| "truthy (Some JNull) = False"
| "truthy (Some (JStr s)) = (s \<noteq> [])"
| "truthy (Some (JOther s t)) = t"

type_synonym jsrecord = "(jsstring \<times> jsval) list"

text \<open>
  A lookup \<open>obj[key]\<close> or a test \<open>key in obj\<close> on an object literal also finds the
  properties inherited from \<open>Object.prototype\<close>; \<open>Inherited key\<close> stands for the value
  found there.
\<close>

datatype 'a looked = Own 'a | Inherited jsstring

definition objectPrototypeKeys :: "jsstring list" where
  "objectPrototypeKeys =
     [str ''constructor'', str ''__defineGetter__'', str ''__defineSetter__'',
      str ''hasOwnProperty'', str ''__lookupGetter__'', str ''__lookupSetter__'',
      str ''isPrototypeOf'', str ''propertyIsEnumerable'', str ''toString'',
      str ''valueOf'', str ''__proto__'', str ''toLocaleString'']"

definition lookupLiteral :: "(jsstring \<times> 'a) list \<Rightarrow> jsstring \<Rightarrow> 'a looked option" where
  "lookupLiteral obj key =
     (case map_of obj key of
        Some v \<Rightarrow> Some (Own v)
      | None \<Rightarrow> if key \<in> set objectPrototypeKeys then Some (Inherited key) else None)"

section \<open>Domain types (domain/types.ts)\<close>

datatype KDDKind =
    ENTITY | EVENT | BUSINESS_RULE | BUSINESS_POLICY | CROSS_POLICY | COMMAND | QUERY
  | PROCESS | USE_CASE | UI_VIEW | UI_COMPONENT | REQUIREMENT | OBJECTIVE | PRD | ADR
  | GLOSSARY

text \<open>The string each member of the \<open>KDDKind\<close> object stands for.\<close>

fun kindStr :: "KDDKind \<Rightarrow> jsstring" where
  "kindStr ENTITY = str ''entity''"
| "kindStr EVENT = str ''event''"
| "kindStr BUSINESS_RULE = str ''business-rule''"
| "kindStr BUSINESS_POLICY = str ''business-policy''"
| "kindStr CROSS_POLICY = str ''cross-policy''"
| "kindStr COMMAND = str ''command''"
| "kindStr QUERY = str ''query''"
| "kindStr PROCESS = str ''process''"
| "kindStr USE_CASE = str ''use-case''"
| "kindStr UI_VIEW = str ''ui-view''"
| "kindStr UI_COMPONENT = str ''ui-component''"
| "kindStr REQUIREMENT = str ''requirement''"
| "kindStr OBJECTIVE = str ''objective''"
| "kindStr PRD = str ''prd''"
| "kindStr ADR = str ''adr''"
| "kindStr GLOSSARY = str ''glossary''"

definition allKinds :: "KDDKind list" where
  "allKinds =
     [ENTITY, EVENT, BUSINESS_RULE, BUSINESS_POLICY, CROSS_POLICY, COMMAND, QUERY, PROCESS,
      USE_CASE, UI_VIEW, UI_COMPONENT, REQUIREMENT, OBJECTIVE, PRD, ADR, GLOSSARY]"

datatype KDDLayer = REQUIREMENTS | DOMAIN | BEHAVIOR | EXPERIENCE | VERIFICATION

fun layerStr :: "KDDLayer \<Rightarrow> jsstring" where
  "layerStr REQUIREMENTS = str ''00-requirements''"
| "layerStr DOMAIN = str ''01-domain''"
| "layerStr BEHAVIOR = str ''02-behavior''"
| "layerStr EXPERIENCE = str ''03-experience''"
| "layerStr VERIFICATION = str ''04-verification''"

fun LAYER_NUMERIC :: "KDDLayer \<Rightarrow> nat" where
  "LAYER_NUMERIC REQUIREMENTS = 0"
| "LAYER_NUMERIC DOMAIN = 1"
| "LAYER_NUMERIC BEHAVIOR = 2"
| "LAYER_NUMERIC EXPERIENCE = 3"
| "LAYER_NUMERIC VERIFICATION = 4"

fun KIND_PREFIX :: "KDDKind \<Rightarrow> jsstring" where
  "KIND_PREFIX ENTITY = str ''Entity''"
| "KIND_PREFIX EVENT = str ''Event''"
| "KIND_PREFIX BUSINESS_RULE = str ''BR''"
| "KIND_PREFIX BUSINESS_POLICY = str ''BP''"
| "KIND_PREFIX CROSS_POLICY = str ''XP''"
| "KIND_PREFIX COMMAND = str ''CMD''"
| "KIND_PREFIX QUERY = str ''QRY''"
| "KIND_PREFIX PROCESS = str ''PROC''"
| "KIND_PREFIX USE_CASE = str ''UC''"
| "KIND_PREFIX UI_VIEW = str ''UIView''"
| "KIND_PREFIX UI_COMPONENT = str ''UIComp''"
| "KIND_PREFIX REQUIREMENT = str ''REQ''"
| "KIND_PREFIX OBJECTIVE = str ''OBJ''"
| "KIND_PREFIX PRD = str ''PRD''"
| "KIND_PREFIX ADR = str ''ADR''"
| "KIND_PREFIX GLOSSARY = str ''GLOSS''"

record GraphNode =
  id' :: jsstring
  kind :: KDDKind
  source_file :: jsstring
  source_hash :: jsstring
  layer :: KDDLayer
  status :: jsstring
  aliases :: "jsstring list"
  domain :: "jsstring option"
  indexed_fields :: jsrecord
  indexed_at :: jsstring

record GraphEdge =
  from_node :: jsstring
  to_node :: jsstring
  edge_type :: jsstring
  edge_source_file :: jsstring
  extraction_method :: jsstring
  metadata :: jsrecord
  layer_violation :: bool
  bidirectional :: bool

record Section =
  heading :: jsstring
  level :: nat
  content :: jsstring
  path :: jsstring

record KDDDocument =
  doc_id :: jsstring
  doc_kind :: KDDKind
  source_path :: jsstring
  doc_source_hash :: jsstring
  doc_layer :: KDDLayer
  front_matter :: jsrecord
  sections :: "Section list"
  wiki_links :: "jsstring list"
  doc_domain :: "jsstring option"

section \<open>Business rules (domain/rules.ts)\<close>

definition KIND_LOOKUP :: "(jsstring \<times> KDDKind) list" where
  "KIND_LOOKUP = map (\<lambda>k. (kindStr k, k)) allKinds"

fun KIND_EXPECTED_PATH :: "KDDKind \<Rightarrow> jsstring" where
  "KIND_EXPECTED_PATH ENTITY = str ''01-domain/entities/''"
| "KIND_EXPECTED_PATH EVENT = str ''01-domain/events/''"
| "KIND_EXPECTED_PATH BUSINESS_RULE = str ''01-domain/rules/''"
| "KIND_EXPECTED_PATH BUSINESS_POLICY = str ''02-behavior/policies/''"
| "KIND_EXPECTED_PATH CROSS_POLICY = str ''02-behavior/policies/''"
| "KIND_EXPECTED_PATH COMMAND = str ''02-behavior/commands/''"
| "KIND_EXPECTED_PATH QUERY = str ''02-behavior/queries/''"
| "KIND_EXPECTED_PATH PROCESS = str ''02-behavior/processes/''"
| "KIND_EXPECTED_PATH USE_CASE = str ''02-behavior/use-cases/''"
| "KIND_EXPECTED_PATH UI_VIEW = str ''03-experience/views/''"
| "KIND_EXPECTED_PATH UI_COMPONENT = str ''03-experience/views/''"
| "KIND_EXPECTED_PATH REQUIREMENT = str ''04-verification/criteria/''"
| "KIND_EXPECTED_PATH OBJECTIVE = str ''00-requirements/objectives/''"
| "KIND_EXPECTED_PATH PRD = str ''00-requirements/''"
| "KIND_EXPECTED_PATH ADR = str ''00-requirements/decisions/''"
| "KIND_EXPECTED_PATH GLOSSARY = str ''01-domain/glossary/''"

record RouteResult =
  route_kind :: "KDDKind looked option"
  warning :: "jsstring option"

text \<open>
  \<open>routeDocument\<close>. A kind string that is only an inherited property of \<open>KIND_LOOKUP\<close>
  passes the \<open>in\<close> test; the value found is no key of \<open>KIND_EXPECTED_PATH\<close>, so the
  expected path is empty and no warning is built.
\<close>

definition routeDocument :: "jsrecord option \<Rightarrow> jsstring \<Rightarrow> RouteResult" where
  "routeDocument frontMatter sourcePath =
     (case frontMatter of
        None \<Rightarrow> \<lparr>route_kind = None, warning = None\<rparr>
      | Some fm \<Rightarrow>
          let kindS = trim (toLowerCase
                (case map_of fm (str ''kind'') of
                   None \<Rightarrow> []
                 | Some JNull \<Rightarrow> []
                 | Some v \<Rightarrow> String v))
          in if kindS = [] then \<lparr>route_kind = None, warning = None\<rparr>
             else
               (case lookupLiteral KIND_LOOKUP kindS of
                  None \<Rightarrow> \<lparr>route_kind = None, warning = None\<rparr>
                | Some (Inherited key) \<Rightarrow> \<lparr>route_kind = Some (Inherited key), warning = None\<rparr>
                | Some (Own k) \<Rightarrow>
                    let expected = KIND_EXPECTED_PATH k
                    in \<lparr>route_kind = Some (Own k),
                        warning =
                          (if expected \<noteq> [] \<and> \<not> includesStr sourcePath expected
                           then Some (kindStr k @ str '' '' @ [39] @ sourcePath @ [39]
                                  @ str '' found outside expected path '' @ [39] @ expected @ [39])
                           else None)\<rparr>))"

text \<open>\<open>isLayerViolation\<close> (BR-LAYER-001).\<close>

definition isLayerViolation :: "KDDLayer \<Rightarrow> KDDLayer \<Rightarrow> bool" where
  "isLayerViolation originLayer destinationLayer =
     (if originLayer = REQUIREMENTS then False
      else LAYER_NUMERIC originLayer < LAYER_NUMERIC destinationLayer)"

section \<open>Wiki links (infra/wiki-links.ts)\<close>

record WikiLink =
  raw :: jsstring
  target :: jsstring
  link_domain :: "jsstring option"
  link_alias :: "jsstring option"

text \<open>
  The matches of \<open>WIKI_LINK_RE\<close>, two opening brackets, a group of one or more code
  units other than a closing bracket, two closing brackets, with the global flag: the
  list of what group 1 holds, from left to right. The group is greedy and what it may
  take ends at the first closing bracket, so at a position there is a match exactly when
  the run up to that bracket is not empty and two closing brackets follow it. After a
  match the search goes on behind it, otherwise at the next position.
\<close>

fun wikiLinkMatches :: "jsstring \<Rightarrow> jsstring list" where
  "wikiLinkMatches [] = []"
| "wikiLinkMatches (c # cs) =
     (let inner = takeWhile (\<lambda>u. u \<noteq> 93) (drop 1 cs);
          after = drop (1 + length inner) cs
      in if startsWith (c # cs) [91, 91] \<and> inner \<noteq> [] \<and> startsWith after [93, 93]
         then inner # wikiLinkMatches (drop 2 after)
         else wikiLinkMatches cs)"

text \<open>\<open>s.split(sep, 2)\<close>: the first two pieces of the split.\<close>

definition split2 :: "jsstring \<Rightarrow> jsstring \<Rightarrow> jsstring list" where
  "split2 s sep = take 2 (splitStr s sep)"

text \<open>
  The body of the loop of \<open>extractWikiLinks\<close> for one match: \<open>None\<close> where the loop
  continues without a link. A string that includes the separator splits into two pieces
  or more, so \<open>parts[1]\<close> is there.
\<close>

definition wikiLinkOfMatch :: "jsstring \<Rightarrow> WikiLink option" where
  "wikiLinkOfMatch group1 =
     (let raw0 = trim group1
      in if raw0 = [] then None
         else
           let (domain0, target0) =
                 (if includesStr raw0 (str ''::'')
                  then let parts = split2 raw0 (str ''::'')
                       in (Some (trim (parts ! 0)), trim (parts ! 1))
                  else (None, raw0));
               (target1, alias0) =
                 (if includesStr target0 (str ''|'')
                  then let parts = split2 target0 (str ''|'')
                       in (trim (parts ! 0), Some (trim (parts ! 1)))
                  else (target0, None))
           in Some \<lparr>raw = raw0, target = target1, link_domain = domain0,
                     link_alias = alias0\<rparr>)"

fun wikiLinkResults :: "jsstring list \<Rightarrow> WikiLink list \<Rightarrow> WikiLink list" where
  "wikiLinkResults [] results0 = results0"
| "wikiLinkResults (m # ms) results0 =
     (case wikiLinkOfMatch m of
        None \<Rightarrow> wikiLinkResults ms results0
      | Some link \<Rightarrow> wikiLinkResults ms (results0 @ [link]))"

definition extractWikiLinks :: "jsstring \<Rightarrow> WikiLink list" where
  "extractWikiLinks content0 = wikiLinkResults (wikiLinkMatches content0) []"

definition extractWikiLinkTargets :: "jsstring \<Rightarrow> jsstring list" where
  "extractWikiLinkTargets content0 = map target (extractWikiLinks content0)"

section \<open>Extractor helpers (application/extractors/base.ts)\<close>

definition resolveWikiLinkToNodeId :: "WikiLink \<Rightarrow> jsstring option" where
  "resolveWikiLinkToNodeId link =
     (let t = target link;
          prefixMap =
            [(str ''EVT-'', str ''Event''), (str ''BR-'', str ''BR''), (str ''BP-'', str ''BP''),
             (str ''XP-'', str ''XP''), (str ''CMD-'', str ''CMD''), (str ''QRY-'', str ''QRY''),
             (str ''UC-'', str ''UC''), (str ''PROC-'', str ''PROC''), (str ''REQ-'', str ''REQ''),
             (str ''OBJ-'', str ''OBJ''), (str ''ADR-'', str ''ADR''), (str ''PRD-'', str ''PRD''),
             (str ''UI-'', str ''UIView'')]
      in case find (\<lambda>(prefix, nodePrefix). startsWith t prefix) prefixMap of
           Some (prefix, nodePrefix) \<Rightarrow> Some (nodePrefix @ str '':'' @ t)
         | None \<Rightarrow> Some (str ''Entity:'' @ t))"

definition layerMap :: "(jsstring \<times> KDDLayer) list" where
  "layerMap =
     [(str ''Entity'', DOMAIN), (str ''Event'', DOMAIN), (str ''BR'', DOMAIN),
      (str ''BP'', BEHAVIOR), (str ''XP'', BEHAVIOR), (str ''CMD'', BEHAVIOR),
      (str ''QRY'', BEHAVIOR), (str ''PROC'', BEHAVIOR), (str ''UC'', BEHAVIOR),
      (str ''UIView'', EXPERIENCE), (str ''UIComp'', EXPERIENCE), (str ''REQ'', VERIFICATION),
      (str ''OBJ'', REQUIREMENTS), (str ''PRD'', REQUIREMENTS), (str ''ADR'', REQUIREMENTS),
      (str ''GLOSS'', DOMAIN)]"

definition guessLayerFromNodeId :: "jsstring \<Rightarrow> KDDLayer looked option" where
  "guessLayerFromNodeId nodeId =
     (let prefix = (if includesStr nodeId (str '':'') then hd (splitStr nodeId (str '':'')) else [])
      in lookupLiteral layerMap prefix)"

text \<open>
  The flag of one link (lines 106 to 108 of the loop): without a destination layer it
  stays \<open>false\<close>; with an inherited value for a layer, \<open>LAYER_NUMERIC\<close> of it is
  \<open>undefined\<close> and the comparison with it is \<open>false\<close>.
\<close>

definition linkViolation :: "KDDLayer \<Rightarrow> jsstring \<Rightarrow> bool" where
  "linkViolation fromLayer toNodeId =
     (case guessLayerFromNodeId toNodeId of
        None \<Rightarrow> False
      | Some (Own destLayer) \<Rightarrow> isLayerViolation fromLayer destLayer
      | Some (Inherited key) \<Rightarrow> False)"

definition linkMetadata :: "WikiLink \<Rightarrow> jsrecord" where
  "linkMetadata link =
     (case link_domain link of
        Some d \<Rightarrow> if d \<noteq> [] then [(str ''domain'', JStr d)] else []
      | None \<Rightarrow> [])
     @ (case link_alias link of
        Some a \<Rightarrow> if a \<noteq> [] then [(str ''display_alias'', JStr a)] else []
      | None \<Rightarrow> [])"

text \<open>The loop over the links, with the set \<open>seen\<close> and the edges pushed so far.\<close>

fun wikiLinkLoop ::
  "KDDDocument \<Rightarrow> jsstring \<Rightarrow> KDDLayer \<Rightarrow> WikiLink list \<Rightarrow> jsstring set \<Rightarrow> GraphEdge list
     \<Rightarrow> GraphEdge list" where
  "wikiLinkLoop document fromNodeId fromLayer [] seen edges = edges"
| "wikiLinkLoop document fromNodeId fromLayer (link # links) seen edges =
     (case resolveWikiLinkToNodeId link of
        None \<Rightarrow> wikiLinkLoop document fromNodeId fromLayer links seen edges
      | Some toNodeId \<Rightarrow>
          if toNodeId = [] then wikiLinkLoop document fromNodeId fromLayer links seen edges
          else
            let key = fromNodeId @ str ''|'' @ toNodeId
            in if key \<in> seen then wikiLinkLoop document fromNodeId fromLayer links seen edges
               else wikiLinkLoop document fromNodeId fromLayer links (insert key seen)
                      (edges @
                       [\<lparr>from_node = fromNodeId, to_node = toNodeId,
                         edge_type = str ''WIKI_LINK'',
                         edge_source_file = source_path document,
                         extraction_method = str ''wiki_link'',
                         metadata = linkMetadata link,
                         layer_violation = linkViolation fromLayer toNodeId,
                         bidirectional = True\<rparr>]))"

definition buildWikiLinkEdges ::
  "KDDDocument \<Rightarrow> jsstring \<Rightarrow> KDDLayer \<Rightarrow> GraphEdge list" where
  "buildWikiLinkEdges document fromNodeId fromLayer =
     (let fullContent = join (map content (sections document)) NL;
          links = extractWikiLinks fullContent
      in wikiLinkLoop document fromNodeId fromLayer links {} [])"

section \<open>Errors\<close>

text \<open>
  What the code throws. \<open>UsageGraphError\<close> is the error of the graph library when
  \<open>addNode\<close> is given a key the graph already has; \<open>Rejected\<close> is a rejection of the
  promise of the encoder.
\<close>

datatype error =
    QUERY_TOO_SHORT
  | NODE_NOT_FOUND jsstring
  | UNKNOWN_KIND KDDKind
  | UsageGraphError jsstring
  | Rejected jsstring

section \<open>Graph store (infra/graph-store.ts)\<close>

text \<open>
  The store holds a directed multigraph of the graph library and a \<open>Map\<close> from node IDs
  to nodes. The graph is modelled by its node keys and its keyed edges, both in
  insertion order; the attributes of an edge are the \<open>GraphEdge\<close>, whose \<open>from_node\<close> and
  \<open>to_node\<close> are the source and target it was added with. The \<open>Map\<close> is the list of its
  entries in insertion order.
\<close>

record GraphStore =
  graph_nodes :: "jsstring list"
  graph_edges :: "(jsstring \<times> GraphEdge) list"
  nodes :: "(jsstring \<times> GraphNode) list"

text \<open>\<open>Map.prototype.set\<close>: an existing key keeps its place, a new key goes last.\<close>

fun mapSet :: "('k \<times> 'v) list \<Rightarrow> 'k \<Rightarrow> 'v \<Rightarrow> ('k \<times> 'v) list" where
  "mapSet [] k v = [(k, v)]"
| "mapSet ((k', v') # m) k v = (if k' = k then (k, v) # m else (k', v') # mapSet m k v)"

text \<open>The edge key of the store; code unit 8594 is the arrow U+2192.\<close>

definition edgeKey :: "GraphEdge \<Rightarrow> jsstring" where
  "edgeKey edge = from_node edge @ [8594] @ to_node edge @ str '':'' @ edge_type edge"

definition emptyStore :: GraphStore where
  "emptyStore = \<lparr>graph_nodes = [], graph_edges = [], nodes = []\<rparr>"

text \<open>The first loop of \<open>load\<close>: \<open>graph.addNode\<close> throws on a key that is present.\<close>

fun loadNodes :: "GraphNode list \<Rightarrow> GraphStore \<Rightarrow> error + GraphStore" where
  "loadNodes [] st = Inr st"
| "loadNodes (node # ns) st =
     (if id' node \<in> set (graph_nodes st) then Inl (UsageGraphError (id' node))
      else loadNodes ns
             (st\<lparr>graph_nodes := graph_nodes st @ [id' node],
                 nodes := mapSet (nodes st) (id' node) node\<rparr>))"

text \<open>The second loop of \<open>load\<close>.\<close>

fun loadEdges :: "GraphEdge list \<Rightarrow> GraphStore \<Rightarrow> GraphStore" where
  "loadEdges [] st = st"
| "loadEdges (edge # es) st =
     (if from_node edge \<notin> set (graph_nodes st) then loadEdges es st
      else if to_node edge \<notin> set (graph_nodes st) then loadEdges es st
      else
        let key = edgeKey edge
        in if key \<in> set (map fst (graph_edges st)) then loadEdges es st
           else loadEdges es (st\<lparr>graph_edges := graph_edges st @ [(key, edge)]\<rparr>))"

text \<open>
  \<open>load\<close> works on the store it is called on; it clears both parts first, so the result
  does not depend on the contents before. An exception leaves the method, and the result
  is the error.
\<close>

definition load :: "GraphNode list \<Rightarrow> GraphEdge list \<Rightarrow> GraphStore \<Rightarrow> error + GraphStore" where
  "load ns es st =
     (case loadNodes ns (st\<lparr>graph_nodes := [], graph_edges := [], nodes := []\<rparr>) of
        Inl e \<Rightarrow> Inl e
      | Inr st' \<Rightarrow> Inr (loadEdges es st'))"

definition getNode :: "GraphStore \<Rightarrow> jsstring \<Rightarrow> GraphNode option" where
  "getNode st ident = map_of (nodes st) ident"

definition hasNode :: "GraphStore \<Rightarrow> jsstring \<Rightarrow> bool" where
  "hasNode st ident \<longleftrightarrow> ident \<in> set (map fst (nodes st))"

text \<open>
  The graph library keeps, for each node, one object for its incoming and one for its
  outgoing edges. The keys of such an object are the neighbours; the entry of a neighbour
  is the chain of the parallel edges between the two nodes, and a new edge is put at the
  head of the chain. \<open>forEachInEdge\<close> and \<open>forEachOutEdge\<close> run over the keys of the
  object with \<open>for ... in\<close> and over each chain from its head. The keys of an object come
  in the order of the language: the array indices (the canonical decimal numerals below
  \<open>2^32 - 1\<close>) in ascending order, then the other keys in the order of their creation.
\<close>

definition isDigit :: "nat \<Rightarrow> bool" where
  "isDigit c \<longleftrightarrow> 48 \<le> c \<and> c \<le> 57"

definition digitsValue :: "jsstring \<Rightarrow> nat" where
  "digitsValue s = foldl (\<lambda>n c. 10 * n + (c - 48)) 0 s"

definition arrayIndex :: "jsstring \<Rightarrow> nat option" where
  "arrayIndex key =
     (if key \<noteq> [] \<and> list_all isDigit key \<and> (hd key \<noteq> 48 \<or> key = [48])
         \<and> digitsValue key < 2 ^ 32 - 1
      then Some (digitsValue key) else None)"

text \<open>The enumeration order of the keys of an object, from their order of creation.\<close>

definition ownKeys :: "jsstring list \<Rightarrow> jsstring list" where
  "ownKeys created =
     sort_key (\<lambda>k. the (arrayIndex k)) (filter (\<lambda>k. arrayIndex k \<noteq> None) created)
     @ filter (\<lambda>k. arrayIndex k = None) created"

text \<open>The distinct members of a list in the order of their first occurrence.\<close>

definition firstSeen :: "'a list \<Rightarrow> 'a list" where
  "firstSeen xs = rev (remdups (rev xs))"

text \<open>
  The enumeration of the edges \<open>es\<close> at a node, given in the order in which they were
  added; \<open>neighbour\<close> gives the other end of an edge.
\<close>

definition adjacency :: "(GraphEdge \<Rightarrow> jsstring) \<Rightarrow> GraphEdge list \<Rightarrow> GraphEdge list" where
  "adjacency neighbour es =
     concat (map (\<lambda>k. rev (filter (\<lambda>e. neighbour e = k) es))
               (ownKeys (firstSeen (map neighbour es))))"

definition inEdges :: "GraphStore \<Rightarrow> jsstring \<Rightarrow> GraphEdge list" where
  "inEdges st nodeId =
     adjacency from_node (filter (\<lambda>e. to_node e = nodeId) (map snd (graph_edges st)))"

definition outEdges :: "GraphStore \<Rightarrow> jsstring \<Rightarrow> GraphEdge list" where
  "outEdges st nodeId =
     adjacency to_node (filter (\<lambda>e. from_node e = nodeId) (map snd (graph_edges st)))"

definition incomingEdges :: "GraphStore \<Rightarrow> jsstring \<Rightarrow> GraphEdge list" where
  "incomingEdges st nodeId =
     (if nodeId \<notin> set (graph_nodes st) then [] else inEdges st nodeId)"

definition outgoingEdges :: "GraphStore \<Rightarrow> jsstring \<Rightarrow> GraphEdge list" where
  "outgoingEdges st nodeId =
     (if nodeId \<notin> set (graph_nodes st) then [] else outEdges st nodeId)"

definition allEdges :: "GraphStore \<Rightarrow> GraphEdge list" where
  "allEdges st = map snd (graph_edges st)"

definition allNodes :: "GraphStore \<Rightarrow> GraphNode list" where
  "allNodes st = map snd (nodes st)"

definition nodeCount :: "GraphStore \<Rightarrow> nat" where
  "nodeCount st = length (nodes st)"

definition edgeCount :: "GraphStore \<Rightarrow> nat" where
  "edgeCount st = length (graph_edges st)"

definition findViolations :: "GraphStore \<Rightarrow> GraphEdge list" where
  "findViolations st = filter layer_violation (allEdges st)"

definition edgeMatches :: "GraphEdge \<Rightarrow> jsstring list option \<Rightarrow> bool \<Rightarrow> bool" where
  "edgeMatches edge edgeTypes respectLayers =
     (if respectLayers \<and> layer_violation edge then False
      else if edgeTypes \<noteq> None \<and> edge_type edge \<notin> set (the edgeTypes) then False
      else True)"

definition nodeMatchesText :: "GraphNode \<Rightarrow> jsstring \<Rightarrow> jsstring list option \<Rightarrow> bool" where
  "nodeMatchesText node queryLower fields' =
     (let searchValues =
            (case fields' of
               Some fs \<Rightarrow>
                 map (\<lambda>(k, v). String v)
                   (filter (\<lambda>(k, v). k \<in> set fs \<and> v \<noteq> JNull) (indexed_fields node))
             | None \<Rightarrow>
                 map String (filter (\<lambda>v. v \<noteq> JNull) (map snd (indexed_fields node))))
            @ [id' node] @ aliases node
      in list_ex (\<lambda>val. includesStr (toLowerCase val) queryLower) searchValues)"

definition textSearch :: "GraphStore \<Rightarrow> jsstring \<Rightarrow> jsstring list option \<Rightarrow> GraphNode list" where
  "textSearch st query fields' =
     (let queryLower = toLowerCase query
      in filter (\<lambda>node. nodeMatchesText node queryLower fields') (map snd (nodes st)))"

text \<open>
  The invariant of the edges of a store: the keys are distinct, every edge is stored
  under its own key, and its endpoints are node keys of the graph.
\<close>

definition edgesOk :: "GraphStore \<Rightarrow> bool" where
  "edgesOk st \<longleftrightarrow>
     distinct (map fst (graph_edges st)) \<and>
     (\<forall>(k, e) \<in> set (graph_edges st).
        k = edgeKey e \<and> from_node e \<in> set (graph_nodes st) \<and> to_node e \<in> set (graph_nodes st))"

section \<open>Coverage query (application/queries/coverage-query.ts)\<close>

datatype coverage_status = Covered | Missing | Partial

record CoverageCategory =
  name :: jsstring
  description :: jsstring
  category_edge_type :: jsstring
  category_status :: coverage_status
  found :: "jsstring list"

record CoverageQueryResult =
  analyzedNode :: "GraphNode option"
  categories :: "CoverageCategory list"
  present :: nat
  missing :: nat
  coveragePercent :: real

type_synonym CoverageRule = "jsstring \<times> jsstring \<times> jsstring"

fun COVERAGE_RULES :: "KDDKind \<Rightarrow> CoverageRule list option" where
  "COVERAGE_RULES ENTITY = Some
     [(str ''events'', str ''Domain events emitted by this entity'', str ''EMITS''),
      (str ''business_rules'', str ''Business rules for this entity'', str ''ENTITY_RULE''),
      (str ''use_cases'', str ''Use cases involving this entity'', str ''WIKI_LINK'')]"
| "COVERAGE_RULES COMMAND = Some
     [(str ''events'', str ''Events emitted by this command'', str ''EMITS''),
      (str ''use_cases'', str ''Use cases that execute this command'', str ''UC_EXECUTES_CMD'')]"
| "COVERAGE_RULES USE_CASE = Some
     [(str ''commands'', str ''Commands executed by this use case'', str ''UC_EXECUTES_CMD''),
      (str ''rules'', str ''Business rules applied'', str ''UC_APPLIES_RULE''),
      (str ''requirements'', str ''Requirements tracing to this UC'', str ''REQ_TRACES_TO'')]"
| "COVERAGE_RULES BUSINESS_RULE = Some
     [(str ''entity'', str ''Entity this rule validates'', str ''ENTITY_RULE''),
      (str ''use_cases'', str ''Use cases that apply this rule'', str ''UC_APPLIES_RULE'')]"
| "COVERAGE_RULES REQUIREMENT = Some
     [(str ''traces'', str ''Artifacts this requirement traces to'', str ''REQ_TRACES_TO'')]"
| "COVERAGE_RULES k = None"

text \<open>\<open>Math.round\<close>: the nearest integer, a half rounded up.\<close>

definition Math_round :: "real \<Rightarrow> real" where
  "Math_round x = of_int \<lfloor>x + 1 / 2\<rfloor>"

text \<open>The inner loop over the edges at the node, collecting \<open>foundIds\<close>.\<close>

fun collectFound :: "jsstring \<Rightarrow> jsstring \<Rightarrow> GraphEdge list \<Rightarrow> jsstring list \<Rightarrow> jsstring list" where
  "collectFound nodeId edgeType [] foundIds = foundIds"
| "collectFound nodeId edgeType (edge # es) foundIds =
     (if edge_type edge = edgeType
      then let other = (if from_node edge = nodeId then to_node edge else from_node edge)
           in if other \<notin> set foundIds
              then collectFound nodeId edgeType es (foundIds @ [other])
              else collectFound nodeId edgeType es foundIds
      else collectFound nodeId edgeType es foundIds)"

text \<open>The loop over the rules, with the categories and the two counters.\<close>

fun coverageLoop ::
  "jsstring \<Rightarrow> GraphEdge list \<Rightarrow> CoverageRule list \<Rightarrow> CoverageCategory list \<times> nat \<times> nat
     \<Rightarrow> CoverageCategory list \<times> nat \<times> nat" where
  "coverageLoop nodeId allE [] acc = acc"
| "coverageLoop nodeId allE ((catName, catDesc, edgeType) # rules) (cats, pres, miss) =
     (let foundIds = collectFound nodeId edgeType allE []
      in if length foundIds > 0
         then coverageLoop nodeId allE rules
                (cats @ [\<lparr>name = catName, description = catDesc, category_edge_type = edgeType,
                           category_status = Covered, found = foundIds\<rparr>],
                 pres + 1, miss)
         else coverageLoop nodeId allE rules
                (cats @ [\<lparr>name = catName, description = catDesc, category_edge_type = edgeType,
                           category_status = Missing, found = []\<rparr>],
                 pres, miss + 1))"

text \<open>
  \<open>coverageQuery\<close>. The arithmetic of the percentage is exact here; the quotients of the
  fixed rule table (at most three rules per kind) are far from a rounding boundary.
\<close>

definition coverageQuery :: "jsstring \<Rightarrow> GraphStore \<Rightarrow> error + CoverageQueryResult" where
  "coverageQuery nodeId graphStore =
     (if \<not> hasNode graphStore nodeId then Inl (NODE_NOT_FOUND nodeId)
      else case getNode graphStore nodeId of
        None \<Rightarrow> Inl (NODE_NOT_FOUND nodeId)
      | Some node \<Rightarrow>
          (case COVERAGE_RULES (kind node) of
             None \<Rightarrow> Inl (UNKNOWN_KIND (kind node))
           | Some rules \<Rightarrow>
               let incoming = incomingEdges graphStore nodeId;
                   outgoing = outgoingEdges graphStore nodeId;
                   allE = incoming @ outgoing;
                   (cats, pres, miss) = coverageLoop nodeId allE rules ([], 0, 0);
                   total = pres + miss;
                   percent = (if total > 0
                              then Math_round ((real pres / real total) * 1000) / 10
                              else 0)
               in Inr \<lparr>analyzedNode = Some node, categories = cats, present = pres,
                        missing = miss, coveragePercent = percent\<rparr>))"

section \<open>Numbers\<close>

text \<open>
  A JavaScript number is a double. \<open>Fin x\<close> is the finite double of value \<open>x\<close>; the two
  zeros are one value, \<open>Fin 0\<close>, which no comparison of the language tells apart.
  \<open>jsadd\<close>, \<open>jssub\<close>, \<open>jsmul\<close> and \<open>jsdiv\<close> give the exact result of the operation on
  finite operands and the result of the language on \<open>NaN\<close> and the infinities (a zero
  divisor counts as \<open>+0\<close>); the operations of the language round that result, see
  \<open>dadd\<close>, \<open>dsub\<close>, \<open>dmul\<close> and \<open>ddiv\<close> below. The vector store computes with the
  rounded operations. The coverage percentage and the fusion score of the hybrid query,
  which are short sums and quotients of small constants, are computed with the exact ones.
\<close>

datatype jsnum = NaN | Fin real | PosInf | NegInf

fun jsneg :: "jsnum \<Rightarrow> jsnum" where
  "jsneg NaN = NaN"
| "jsneg (Fin x) = Fin (- x)"
| "jsneg PosInf = NegInf"
| "jsneg NegInf = PosInf"

fun jsadd :: "jsnum \<Rightarrow> jsnum \<Rightarrow> jsnum" where
  "jsadd NaN b = NaN"
| "jsadd a NaN = NaN"
| "jsadd (Fin x) (Fin y) = Fin (x + y)"
| "jsadd (Fin x) b = b"
| "jsadd a (Fin y) = a"
| "jsadd PosInf PosInf = PosInf"
| "jsadd NegInf NegInf = NegInf"
| "jsadd PosInf NegInf = NaN"
| "jsadd NegInf PosInf = NaN"

definition jssub :: "jsnum \<Rightarrow> jsnum \<Rightarrow> jsnum" where
  "jssub a b = jsadd a (jsneg b)"

text \<open>The sign of a number that is not \<open>NaN\<close>: \<open>-1\<close>, \<open>0\<close> or \<open>1\<close>.\<close>

fun jssign :: "jsnum \<Rightarrow> int" where
  "jssign NaN = 0"
| "jssign (Fin x) = (if x < 0 then - 1 else if x = 0 then 0 else 1)"
| "jssign PosInf = 1"
| "jssign NegInf = - 1"

fun jsmul :: "jsnum \<Rightarrow> jsnum \<Rightarrow> jsnum" where
  "jsmul NaN b = NaN"
| "jsmul a NaN = NaN"
| "jsmul (Fin x) (Fin y) = Fin (x * y)"
| "jsmul a b =
     (if jssign a * jssign b = 0 then NaN
      else if jssign a * jssign b > 0 then PosInf else NegInf)"

fun jsdiv :: "jsnum \<Rightarrow> jsnum \<Rightarrow> jsnum" where
  "jsdiv NaN b = NaN"
| "jsdiv a NaN = NaN"
| "jsdiv (Fin x) (Fin y) =
     (if y = 0 then (if x = 0 then NaN else if x > 0 then PosInf else NegInf)
      else Fin (x / y))"
| "jsdiv (Fin x) b = Fin 0"
| "jsdiv a (Fin y) =
     (if jssign a * (if y < 0 then - 1 else 1) > 0 then PosInf else NegInf)"
| "jsdiv a b = NaN"

text \<open>The comparisons; each is \<open>false\<close> when an operand is \<open>NaN\<close>.\<close>

fun jslt :: "jsnum \<Rightarrow> jsnum \<Rightarrow> bool" where
  "jslt NaN b = False"
| "jslt a NaN = False"
| "jslt (Fin x) (Fin y) = (x < y)"
| "jslt NegInf b = (b \<noteq> NegInf)"
| "jslt a PosInf = (a \<noteq> PosInf)"
| "jslt a b = False"

definition jsgt :: "jsnum \<Rightarrow> jsnum \<Rightarrow> bool" where
  "jsgt a b = jslt b a"

definition jsge :: "jsnum \<Rightarrow> jsnum \<Rightarrow> bool" where
  "jsge a b \<longleftrightarrow> a \<noteq> NaN \<and> b \<noteq> NaN \<and> \<not> jslt a b"

definition Math_max :: "jsnum \<Rightarrow> jsnum \<Rightarrow> jsnum" where
  "Math_max a b = (if a = NaN \<or> b = NaN then NaN else if jslt a b then b else a)"

definition Math_min :: "jsnum \<Rightarrow> jsnum \<Rightarrow> jsnum" where
  "Math_min a b = (if a = NaN \<or> b = NaN then NaN else if jslt b a then b else a)"

subsection \<open>Rounding\<close>

text \<open>
  The finite doubles are the numbers \<open>m * 2^e\<close> with an integer \<open>m\<close> of magnitude below
  \<open>2^53\<close> and \<open>-1074 \<le> e \<le> 971\<close>. \<open>rnd x\<close> is the double nearest to the real \<open>x\<close>, the
  one with the even \<open>m\<close> where two are equally near, and an infinity where the rounded
  magnitude reaches \<open>2^1024\<close>. \<open>bitLength n\<close> is the number of binary digits of \<open>n\<close>, and
  \<open>quantum x\<close> the exponent \<open>e\<close> of the doubles around \<open>x\<close>: 52 below the binary exponent
  of \<open>x\<close>, and \<open>-1074\<close> for the subnormal numbers.
\<close>

function bitLength :: "int \<Rightarrow> nat" where
  "bitLength n = (if n \<le> 0 then 0 else Suc (bitLength (n div 2)))"
  by pat_completeness auto

termination
  by (relation "measure nat") auto

declare bitLength.simps [simp del]

definition quantumMin :: int where
  "quantumMin = - 1074"

definition overflowBound :: real where
  "overflowBound = 2 ^ 1024"

definition quantum :: "real \<Rightarrow> int" where
  "quantum x =
     max (int (bitLength \<lfloor>\<bar>x\<bar> * 2 powi (- quantumMin)\<rfloor>) + quantumMin - 53) quantumMin"

definition roundEven :: "real \<Rightarrow> int" where
  "roundEven q =
     (let f = \<lfloor>q\<rfloor>; r = q - of_int f
      in if r < 1 / 2 then f else if 1 / 2 < r then f + 1 else if even f then f else f + 1)"

definition rnd :: "real \<Rightarrow> jsnum" where
  "rnd x =
     (let e = quantum x;
          y = of_int (roundEven (x / 2 powi e)) * 2 powi e
      in if overflowBound \<le> y then PosInf
         else if y \<le> - overflowBound then NegInf
         else Fin y)"

text \<open>
  The arithmetic of the language: the exact result, rounded. \<open>Math.sqrt\<close> is the rounded
  square root.
\<close>

fun rounded :: "jsnum \<Rightarrow> jsnum" where
  "rounded (Fin x) = rnd x"
| "rounded a = a"

definition dadd :: "jsnum \<Rightarrow> jsnum \<Rightarrow> jsnum" where
  "dadd a b = rounded (jsadd a b)"

definition dsub :: "jsnum \<Rightarrow> jsnum \<Rightarrow> jsnum" where
  "dsub a b = rounded (jssub a b)"

definition dmul :: "jsnum \<Rightarrow> jsnum \<Rightarrow> jsnum" where
  "dmul a b = rounded (jsmul a b)"

definition ddiv :: "jsnum \<Rightarrow> jsnum \<Rightarrow> jsnum" where
  "ddiv a b = rounded (jsdiv a b)"

fun Math_sqrt :: "jsnum \<Rightarrow> jsnum" where
  "Math_sqrt NaN = NaN"
| "Math_sqrt (Fin x) = (if x < 0 then NaN else rnd (sqrt x))"
| "Math_sqrt PosInf = PosInf"
| "Math_sqrt NegInf = NaN"

subsection \<open>Arrays\<close>

text \<open>
  \<open>Array.prototype.sort\<close> with a comparator is stable: an element moves behind another
  one only where the comparator is positive (a comparator value \<open>NaN\<close> counts as zero).
  It is modelled as insertion from the right.
\<close>

fun insertBy :: "('a \<Rightarrow> 'a \<Rightarrow> jsnum) \<Rightarrow> 'a \<Rightarrow> 'a list \<Rightarrow> 'a list" where
  "insertBy cmp x [] = [x]"
| "insertBy cmp x (y # ys) =
     (if jsgt (cmp x y) (Fin 0) then y # insertBy cmp x ys else x # y # ys)"

definition sortBy :: "('a \<Rightarrow> 'a \<Rightarrow> jsnum) \<Rightarrow> 'a list \<Rightarrow> 'a list" where
  "sortBy cmp xs = foldr (insertBy cmp) xs []"

text \<open>\<open>xs.slice(0, end)\<close> for an integer \<open>end\<close>; a negative \<open>end\<close> counts from the back.\<close>

definition slice0 :: "'a list \<Rightarrow> int \<Rightarrow> 'a list" where
  "slice0 xs end' =
     (if end' < 0 then take (nat (int (length xs) + end')) xs else take (nat end') xs)"

section \<open>Vector store (infra/vector-store.ts)\<close>

record Embedding =
  embedding_id :: jsstring
  document_id :: jsstring
  document_kind :: KDDKind
  section_path :: jsstring
  chunk_index :: nat
  raw_text :: jsstring
  embedding_context_text :: jsstring
  vector :: "jsnum list"
  model :: jsstring
  dimensions :: nat
  text_hash :: jsstring
  generated_at :: jsstring

text \<open>
  The parallel arrays \<open>ids\<close> and \<open>vectors\<close> are only set together by \<open>load\<close>, from one
  list, so they are kept as one list of pairs. A vector is a \<open>Float64Array\<close>: its
  components are doubles, \<open>NaN\<close> and the infinities included.
\<close>

record VectorStore =
  entries :: "(jsstring \<times> jsnum list) list"

definition loadVectors :: "Embedding list \<Rightarrow> VectorStore" where
  "loadVectors embeddings = \<lparr>entries = map (\<lambda>e. (embedding_id e, vector e)) embeddings\<rparr>"

text \<open>
  \<open>dot\<close> runs over the indices of \<open>a\<close>; where \<open>b\<close> is shorter, \<open>b[i]\<close> is \<open>undefined\<close>,
  the product is \<open>NaN\<close> and so is the sum.
\<close>

fun dotLoop :: "jsnum \<Rightarrow> jsnum list \<Rightarrow> jsnum list \<Rightarrow> jsnum" where
  "dotLoop s [] b = s"
| "dotLoop s (x # xs) [] = dotLoop (dadd s NaN) xs []"
| "dotLoop s (x # xs) (y # ys) = dotLoop (dadd s (dmul x y)) xs ys"

definition dot :: "jsnum list \<Rightarrow> jsnum list \<Rightarrow> jsnum" where
  "dot a b = dotLoop (Fin 0) a b"

fun normLoop :: "jsnum \<Rightarrow> jsnum list \<Rightarrow> jsnum" where
  "normLoop s [] = s"
| "normLoop s (x # xs) = normLoop (dadd s (dmul x x)) xs"

definition norm' :: "jsnum list \<Rightarrow> jsnum" where
  "norm' a = Math_sqrt (normLoop (Fin 0) a)"

text \<open>
  The similarity of the loop body of \<open>search\<close>. Its divisor is a product of two norms,
  each the root of a sum that starts at \<open>+0\<close>, so a divisor that is zero is \<open>+0\<close>.
\<close>

definition similarity :: "jsnum list \<Rightarrow> jsnum \<Rightarrow> jsnum list \<Rightarrow> jsnum" where
  "similarity qv qNorm v = ddiv (dot qv v) (dmul qNorm (norm' v))"

fun scoreLoop ::
  "jsnum list \<Rightarrow> jsnum \<Rightarrow> jsnum \<Rightarrow> (jsstring \<times> jsnum list) list \<Rightarrow> (jsstring \<times> jsnum) list
     \<Rightarrow> (jsstring \<times> jsnum) list" where
  "scoreLoop qv qNorm minScore [] scored = scored"
| "scoreLoop qv qNorm minScore ((ident, v) # rest) scored =
     (let sim = similarity qv qNorm v
      in if jsge sim minScore then scoreLoop qv qNorm minScore rest (scored @ [(ident, sim)])
         else scoreLoop qv qNorm minScore rest scored)"

definition search ::
  "VectorStore \<Rightarrow> jsnum list \<Rightarrow> int \<Rightarrow> jsnum \<Rightarrow> (jsstring \<times> jsnum) list" where
  "search vs queryVector limit minScore =
     (if length (entries vs) = 0 then []
      else
        let qNorm = norm' queryVector
        in if qNorm = Fin 0 then []
           else
             let scored = scoreLoop queryVector qNorm minScore (entries vs) []
             in slice0 (sortBy (\<lambda>a b. dsub (snd b) (snd a)) scored) limit)"

section \<open>Table parsing (application/extractors/base.ts)\<close>

text \<open>The trimmed lines of the trimmed content that start with a pipe (code unit 124).\<close>

definition pipeLines :: "jsstring \<Rightarrow> jsstring list" where
  "pipeLines content' =
     filter (\<lambda>l. startsWith l (str ''|'')) (map trim (splitStr (trim content') NL))"

text \<open>
  \<open>line.replace(/^\||\|$/g, "")\<close>: a pipe at the start is removed, and a pipe at the
  end of what follows is removed.
\<close>

definition stripTrailingPipe :: "jsstring \<Rightarrow> jsstring" where
  "stripTrailingPipe s = (if s \<noteq> [] \<and> last s = 124 then butlast s else s)"

fun stripPipes :: "jsstring \<Rightarrow> jsstring" where
  "stripPipes [] = []"
| "stripPipes (c # cs) = (if c = 124 then stripTrailingPipe cs else stripTrailingPipe (c # cs))"

text \<open>The header cells, trimmed and without back-ticks (code unit 96).\<close>

definition tableHeaders :: "jsstring \<Rightarrow> jsstring list" where
  "tableHeaders line =
     map (\<lambda>h. filter (\<lambda>c. c \<noteq> 96) (trim h)) (splitStr (stripPipes line) (str ''|''))"

definition tableCells :: "jsstring \<Rightarrow> jsstring list" where
  "tableCells line = map trim (splitStr (stripPipes line) (str ''|''))"

text \<open>
  A row is an object with string values, read by property name. Assigning to
  \<open>__proto__\<close> with a string creates no property.
\<close>

type_synonym tableRow = "jsstring \<rightharpoonup> jsstring"

definition rowSet :: "tableRow \<Rightarrow> jsstring \<Rightarrow> jsstring \<Rightarrow> tableRow" where
  "rowSet row h v = (if h = str ''__proto__'' then row else row(h \<mapsto> v))"

text \<open>\<open>headers.forEach((h, i) => (row[h] = cells[i]))\<close>, called with enough cells.\<close>

definition buildRow :: "jsstring list \<Rightarrow> jsstring list \<Rightarrow> tableRow" where
  "buildRow headers cells =
     foldl (\<lambda>row (h, i). rowSet row h (cells ! i)) Map.empty
       (zip headers [0..<length headers])"

fun rowLoop :: "jsstring list \<Rightarrow> jsstring list \<Rightarrow> tableRow list \<Rightarrow> tableRow list" where
  "rowLoop headers [] rows = rows"
| "rowLoop headers (line # ls) rows =
     (let cells = tableCells line
      in if length cells \<ge> length headers
         then rowLoop headers ls (rows @ [buildRow headers cells])
         else rowLoop headers ls rows)"

definition parseTableRows :: "jsstring \<Rightarrow> tableRow list" where
  "parseTableRows content' =
     (let lines = pipeLines content'
      in if length lines < 2 then []
         else rowLoop (tableHeaders (lines ! 0)) (drop 2 lines) [])"

text \<open>\<open>parseListItems\<close>.\<close>

definition parseListItems :: "jsstring \<Rightarrow> jsstring list" where
  "parseListItems content' =
     map (\<lambda>l. trim (drop 2 l))
       (filter (\<lambda>l. startsWith l (str ''- '') \<or> startsWith l (str ''* ''))
          (map trim (splitStr content' NL)))"

text \<open>\<open>deduplicateEdges\<close>, with the set of keys seen.\<close>

fun dedupLoop :: "GraphEdge list \<Rightarrow> jsstring set \<Rightarrow> GraphEdge list" where
  "dedupLoop [] seen = []"
| "dedupLoop (e # es) seen =
     (let key = from_node e @ str ''|'' @ to_node e @ str ''|'' @ edge_type e
      in if key \<in> seen then dedupLoop es seen else e # dedupLoop es (insert key seen))"

definition deduplicateEdges :: "GraphEdge list \<Rightarrow> GraphEdge list" where
  "deduplicateEdges edges = dedupLoop edges {}"

section \<open>Chunking (application/chunking.ts)\<close>

text \<open>The decimal digits of a number, as a template literal prints it.\<close>

fun showNat :: "nat \<Rightarrow> jsstring" where
  "showNat n = (if n < 10 then [48 + n] else showNat (n div 10) @ [48 + n mod 10])"

declare showNat.simps [simp del]

record Chunk =
  chunk_id :: jsstring
  chunk_document_id :: jsstring
  section_heading :: jsstring
  chunk_content :: jsstring
  context_text :: jsstring
  char_offset :: int

text \<open>
  \<open>EMBEDDABLE_SECTIONS\<close> (domain/rules.ts, BR-EMBEDDING-001), each set as the list of
  its members; code units 243, 225 are the letters o and a with acute accent.
\<close>

fun EMBEDDABLE_SECTIONS :: "KDDKind \<Rightarrow> jsstring list" where
  "EMBEDDABLE_SECTIONS ENTITY = [str ''descripci'' @ [243] @ str ''n'', str ''description'']"
| "EMBEDDABLE_SECTIONS EVENT = []"
| "EMBEDDABLE_SECTIONS BUSINESS_RULE =
     [str ''declaraci'' @ [243] @ str ''n'', str ''declaration'',
      str ''cu'' @ [225] @ str ''ndo aplica'', str ''when applies'']"
| "EMBEDDABLE_SECTIONS BUSINESS_POLICY = [str ''declaraci'' @ [243] @ str ''n'', str ''declaration'']"
| "EMBEDDABLE_SECTIONS CROSS_POLICY =
     [str ''prop'' @ [243] @ str ''sito'', str ''purpose'',
      str ''declaraci'' @ [243] @ str ''n'', str ''declaration'']"
| "EMBEDDABLE_SECTIONS COMMAND = [str ''purpose'', str ''prop'' @ [243] @ str ''sito'']"
| "EMBEDDABLE_SECTIONS QUERY = [str ''purpose'', str ''prop'' @ [243] @ str ''sito'']"
| "EMBEDDABLE_SECTIONS PROCESS =
     [str ''participantes'', str ''participants'', str ''pasos'', str ''steps'']"
| "EMBEDDABLE_SECTIONS USE_CASE =
     [str ''descripci'' @ [243] @ str ''n'', str ''description'', str ''flujo principal'',
      str ''main flow'']"
| "EMBEDDABLE_SECTIONS UI_VIEW =
     [str ''descripci'' @ [243] @ str ''n'', str ''description'', str ''comportamiento'',
      str ''behavior'']"
| "EMBEDDABLE_SECTIONS UI_COMPONENT = [str ''descripci'' @ [243] @ str ''n'', str ''description'']"
| "EMBEDDABLE_SECTIONS REQUIREMENT = [str ''descripci'' @ [243] @ str ''n'', str ''description'']"
| "EMBEDDABLE_SECTIONS OBJECTIVE = [str ''objetivo'', str ''objective'']"
| "EMBEDDABLE_SECTIONS PRD = [str ''problema / oportunidad'', str ''problem / opportunity'']"
| "EMBEDDABLE_SECTIONS ADR =
     [str ''contexto'', str ''context'', str ''decisi'' @ [243] @ str ''n'', str ''decision'']"
| "EMBEDDABLE_SECTIONS GLOSSARY = [str ''definici'' @ [243] @ str ''n'', str ''definition'']"

definition embeddableSections :: "KDDKind \<Rightarrow> jsstring list" where
  "embeddableSections k = EMBEDDABLE_SECTIONS k"

text \<open>
  \<open>text.split(/(?<=\.)\s+/)\<close>: a run of white space that follows a full stop (code unit
  46) is a separator; \<open>sentAcc\<close> carries the piece read so far, reversed.
\<close>

function sentAcc :: "jsstring \<Rightarrow> jsstring \<Rightarrow> jsstring list" where
  "sentAcc acc [] = [rev acc]"
| "sentAcc acc [c] = [rev (c # acc)]"
| "sentAcc acc (c # d # cs) =
     (if c = 46 \<and> isSpace d then rev (c # acc) # sentAcc [] (dropWhile isSpace cs)
      else sentAcc (c # acc) (d # cs))"
  by pat_completeness auto
termination
  by (relation "measure (\<lambda>(acc, s). length s)")
     (auto simp: le_imp_less_Suc length_dropWhile_le less_Suc_eq_le intro: le_SucI)

definition splitSentences :: "jsstring \<Rightarrow> jsstring list" where
  "splitSentences text' = filter (\<lambda>s. s \<noteq> []) (map trim (sentAcc [] text'))"

text \<open>
  The sentence loop of \<open>splitParagraphs\<close>; its state is \<open>results\<close>, \<open>sentBuf\<close>,
  \<open>sentLen\<close> and \<open>sentOffset\<close>.
\<close>

type_synonym sentState = "(int \<times> jsstring) list \<times> jsstring list \<times> int \<times> int"

fun sentLoop :: "int \<Rightarrow> int \<Rightarrow> jsstring list \<Rightarrow> sentState \<Rightarrow> sentState" where
  "sentLoop maxChars charPos [] st = st"
| "sentLoop maxChars charPos (sent # sents) (results, sentBuf, sentLen, sentOffset) =
     (if sentLen + int (length sent) + 1 > maxChars \<and> length sentBuf > 0
      then sentLoop maxChars charPos sents
             (results @ [(sentOffset, join sentBuf (str '' ''))],
              [sent], 0 + (int (length sent) + 1), charPos)
      else sentLoop maxChars charPos sents
             (results, sentBuf @ [sent], sentLen + (int (length sent) + 1), sentOffset))"

text \<open>
  The paragraph loop; its state is \<open>results\<close>, \<open>currentParts\<close>, \<open>currentLen\<close>,
  \<open>currentOffset\<close> and \<open>charPos\<close>. \<open>flushStep\<close> is the first \<open>if\<close> of the loop body,
  \<open>placeStep\<close> the second.
\<close>

type_synonym paraState = "(int \<times> jsstring) list \<times> jsstring list \<times> int \<times> int \<times> int"

definition flushStep :: "int \<Rightarrow> int \<Rightarrow> int \<Rightarrow> paraState \<Rightarrow> paraState" where
  "flushStep maxChars overlap paraLen st =
     (case st of (results, currentParts, currentLen, currentOffset, charPos) \<Rightarrow>
        if currentLen + paraLen + 2 > maxChars \<and> length currentParts > 0
        then
          let results' = results @ [(currentOffset, join currentParts (NL @ NL))]
          in if overlap > 0 \<and> length currentParts > 0
             then
               let last' = last currentParts
               in if int (length last') \<le> overlap
                  then (results', [last'], int (length last'),
                        charPos - int (length last') - 2, charPos)
                  else (results', [], 0, charPos, charPos)
             else (results', [], 0, charPos, charPos)
        else st)"

definition placeStep :: "int \<Rightarrow> jsstring \<Rightarrow> paraState \<Rightarrow> paraState" where
  "placeStep maxChars para st =
     (case st of (results, currentParts, currentLen, currentOffset, charPos) \<Rightarrow>
        let paraLen = int (length para)
        in if paraLen > maxChars \<and> length currentParts = 0
           then
             (case sentLoop maxChars charPos (splitSentences para) (results, [], 0, charPos) of
                (results', sentBuf, sentLen, sentOffset) \<Rightarrow>
                  if length sentBuf > 0
                  then (results', sentBuf, sentLen, sentOffset, charPos)
                  else (results', currentParts, currentLen, currentOffset, charPos))
           else
             (results, currentParts @ [para], currentLen + (paraLen + 2),
              (if length currentParts = 0 then charPos else currentOffset), charPos))"

fun paraLoop :: "int \<Rightarrow> int \<Rightarrow> jsstring list \<Rightarrow> paraState \<Rightarrow> paraState" where
  "paraLoop maxChars overlap [] st = st"
| "paraLoop maxChars overlap (rawPara # paragraphs) st =
     (let para = trim rawPara
      in if para = []
         then (case st of (results, currentParts, currentLen, currentOffset, charPos) \<Rightarrow>
                 paraLoop maxChars overlap paragraphs
                   (results, currentParts, currentLen, currentOffset, charPos + 2))
         else
           (case placeStep maxChars para (flushStep maxChars overlap (int (length para)) st) of
              (results, currentParts, currentLen, currentOffset, charPos) \<Rightarrow>
                paraLoop maxChars overlap paragraphs
                  (results, currentParts, currentLen, currentOffset,
                   charPos + (int (length para) + 2))))"

definition splitParagraphs :: "jsstring \<Rightarrow> int \<Rightarrow> int \<Rightarrow> (int \<times> jsstring) list" where
  "splitParagraphs content' maxChars overlap =
     (case paraLoop maxChars overlap (splitStr content' (NL @ NL)) ([], [], 0, 0, 0) of
        (results, currentParts, currentLen, currentOffset, charPos) \<Rightarrow>
          if length currentParts > 0
          then results @ [(currentOffset, join currentParts (NL @ NL))]
          else results)"

definition buildIdentity :: "KDDDocument \<Rightarrow> jsstring" where
  "buildIdentity document =
     (let parts = [str ''Document: '' @ doc_id document,
                   str ''Kind: '' @ kindStr (doc_kind document),
                   str ''Layer: '' @ layerStr (doc_layer document)];
          title = map_of (front_matter document) (str ''title'')
      in join (if truthy title then parts @ [str ''Title: '' @ String (the title)] else parts)
           NL)"

text \<open>The loop over the pieces of one section, with \<open>chunkIdx\<close>.\<close>

fun pieceLoop ::
  "KDDDocument \<Rightarrow> jsstring \<Rightarrow> Section \<Rightarrow> (int \<times> jsstring) list \<Rightarrow> nat \<Rightarrow> Chunk list
     \<Rightarrow> Chunk list \<times> nat" where
  "pieceLoop document identity section [] chunkIdx chunks = (chunks, chunkIdx)"
| "pieceLoop document identity section ((offset, text') # paragraphs) chunkIdx chunks =
     pieceLoop document identity section paragraphs (chunkIdx + 1)
       (chunks @
        [\<lparr>chunk_id = doc_id document @ str '':chunk-'' @ showNat chunkIdx,
          chunk_document_id = doc_id document,
          section_heading = heading section,
          chunk_content = text',
          context_text = identity @ NL @ str ''Section: '' @ heading section @ NL @ NL @ text',
          char_offset = offset\<rparr>])"

fun sectionLoop ::
  "KDDDocument \<Rightarrow> jsstring \<Rightarrow> jsstring list \<Rightarrow> int \<Rightarrow> int \<Rightarrow> Section list \<Rightarrow> nat \<Rightarrow> Chunk list
     \<Rightarrow> Chunk list" where
  "sectionLoop document identity allowed maxChunkChars overlapChars [] chunkIdx chunks = chunks"
| "sectionLoop document identity allowed maxChunkChars overlapChars (section # rest) chunkIdx chunks =
     (if toLowerCase (heading section) \<notin> set allowed
      then sectionLoop document identity allowed maxChunkChars overlapChars rest chunkIdx chunks
      else if trim (content section) = []
      then sectionLoop document identity allowed maxChunkChars overlapChars rest chunkIdx chunks
      else
        (case pieceLoop document identity section
                (splitParagraphs (content section) maxChunkChars overlapChars) chunkIdx chunks of
           (chunks', chunkIdx') \<Rightarrow>
             sectionLoop document identity allowed maxChunkChars overlapChars rest chunkIdx'
               chunks'))"

text \<open>\<open>chunkDocument\<close>; the defaults of the two sizes are 1500 and 200.\<close>

definition chunkDocument :: "KDDDocument \<Rightarrow> int \<Rightarrow> int \<Rightarrow> Chunk list" where
  "chunkDocument document maxChunkChars overlapChars =
     (let allowed = embeddableSections (doc_kind document)
      in if length allowed = 0 then []
         else sectionLoop document (buildIdentity document) allowed maxChunkChars overlapChars
                (sections document) 0 [])"

text \<open>
  Whether a text holds a full stop followed by white space, the place where
  \<open>splitSentences\<close> cuts.
\<close>

fun hasSentenceBoundary :: "jsstring \<Rightarrow> bool" where
  "hasSentenceBoundary [] = False"
| "hasSentenceBoundary [c] = False"
| "hasSentenceBoundary (c # d # cs) = ((c = 46 \<and> isSpace d) \<or> hasSentenceBoundary (d # cs))"

section \<open>Graph traversal (infra/graph-store.ts)\<close>

text \<open>
  The state of the breadth-first loop of \<open>traverse\<close>: the set \<open>visited\<close> in insertion
  order, the queue and the collected edges. \<open>outStep\<close> and \<open>inStep\<close> are the callbacks
  of \<open>forEachOutEdge\<close> and \<open>forEachInEdge\<close>.
\<close>

type_synonym bfsState = "jsstring list \<times> (jsstring \<times> int) list \<times> GraphEdge list"

definition visitStep ::
  "jsstring list option \<Rightarrow> bool \<Rightarrow> int \<Rightarrow> jsstring \<Rightarrow> GraphEdge \<Rightarrow> bfsState \<Rightarrow> bfsState" where
  "visitStep edgeTypes respectLayers dist' other edge st =
     (case st of (visited, queue, collectedEdges) \<Rightarrow>
        if \<not> edgeMatches edge edgeTypes respectLayers then st
        else if other \<notin> set visited
        then (visited @ [other], queue @ [(other, dist' + 1)], collectedEdges @ [edge])
        else (visited, queue, collectedEdges @ [edge]))"

definition outStep :: "jsstring list option \<Rightarrow> bool \<Rightarrow> int \<Rightarrow> bfsState \<Rightarrow> GraphEdge \<Rightarrow> bfsState" where
  "outStep edgeTypes respectLayers dist' st edge =
     visitStep edgeTypes respectLayers dist' (to_node edge) edge st"

definition inStep :: "jsstring list option \<Rightarrow> bool \<Rightarrow> int \<Rightarrow> bfsState \<Rightarrow> GraphEdge \<Rightarrow> bfsState" where
  "inStep edgeTypes respectLayers dist' st edge =
     visitStep edgeTypes respectLayers dist' (from_node edge) edge st"

text \<open>One turn of the loop for a node within the depth.\<close>

definition expandNode ::
  "GraphStore \<Rightarrow> jsstring list option \<Rightarrow> bool \<Rightarrow> jsstring \<Rightarrow> int \<Rightarrow> bfsState \<Rightarrow> bfsState" where
  "expandNode gs edgeTypes respectLayers current dist' st =
     foldl (inStep edgeTypes respectLayers dist')
       (foldl (outStep edgeTypes respectLayers dist') st (outEdges gs current))
       (inEdges gs current)"

text \<open>The node keys that occur as an endpoint of an edge of the graph.\<close>

definition endpoints :: "GraphStore \<Rightarrow> jsstring set" where
  "endpoints gs = set (map (from_node \<circ> snd) (graph_edges gs)) \<union> set (map (to_node \<circ> snd) (graph_edges gs))"

function bfs ::
  "GraphStore \<Rightarrow> int \<Rightarrow> jsstring list option \<Rightarrow> bool \<Rightarrow> bfsState \<Rightarrow> jsstring list \<times> GraphEdge list" where
  "bfs gs depth edgeTypes respectLayers (visited, [], collectedEdges) = (visited, collectedEdges)"
| "bfs gs depth edgeTypes respectLayers (visited, (current, dist') # queue, collectedEdges) =
     (if dist' \<ge> depth then bfs gs depth edgeTypes respectLayers (visited, queue, collectedEdges)
      else bfs gs depth edgeTypes respectLayers
             (expandNode gs edgeTypes respectLayers current dist' (visited, queue, collectedEdges)))"
  by pat_completeness auto

text \<open>
  The loop ends: a turn either takes one entry off the queue and visits nothing new, or
  visits a new endpoint of an edge, of which there are finitely many.
\<close>

termination
proof -
  have step: "set v \<subseteq> set v' \<and> set v' \<subseteq> set v \<union> E \<and> (q' = q \<and> set v' = set v \<or> set v \<subset> set v')"
    if "other \<in> E"
      and "visitStep edgeTypes respectLayers dist' other edge (v, q, c) = (v', q', c')"
    for other :: jsstring and E edgeTypes respectLayers dist' edge v q c v' q' c'
  proof (cases "edgeMatches edge edgeTypes respectLayers \<and> other \<notin> set v")
    case True
    then have "v' = v @ [other]" using that(2) by (simp add: visitStep_def)
    then show ?thesis using True that(1) by auto
  next
    case False
    then have "v' = v \<and> q' = q" using that(2) by (auto simp: visitStep_def split: if_splits)
    then show ?thesis by simp
  qed
  have fold: "set v \<subseteq> set v' \<and> set v' \<subseteq> set v \<union> E \<and> (q' = q \<and> set v' = set v \<or> set v \<subset> set v')"
    if "\<forall>e \<in> set es. f e \<in> E"
      and "foldl (\<lambda>st e. visitStep edgeTypes respectLayers dist' (f e) e st) (v, q, c) es
             = (v', q', c')"
    for f :: "GraphEdge \<Rightarrow> jsstring" and E edgeTypes respectLayers dist' es v q c v' q' c'
    using that
  proof (induction es arbitrary: v q c)
    case Nil
    then show ?case by simp
  next
    case (Cons e es)
    obtain v1 q1 c1
      where s: "visitStep edgeTypes respectLayers dist' (f e) e (v, q, c) = (v1, q1, c1)"
      by (cases "visitStep edgeTypes respectLayers dist' (f e) e (v, q, c)") auto
    have fe: "f e \<in> E" using Cons.prems by simp
    from step [OF fe s]
    have 1: "set v \<subseteq> set v1" "set v1 \<subseteq> set v \<union> E"
      "q1 = q \<and> set v1 = set v \<or> set v \<subset> set v1"
      by blast+
    have "foldl (\<lambda>st e. visitStep edgeTypes respectLayers dist' (f e) e st) (v1, q1, c1) es
        = (v', q', c')"
      using Cons.prems s by simp
    from Cons.IH [OF _ this] Cons.prems(1)
    have 2: "set v1 \<subseteq> set v'" "set v' \<subseteq> set v1 \<union> E"
      "q' = q1 \<and> set v' = set v1 \<or> set v1 \<subset> set v'"
      by auto
    show ?case using 1 2 by blast
  qed
  have expand: "set v \<subseteq> set v' \<and> set v' \<subseteq> set v \<union> endpoints gs
       \<and> (q' = q \<and> set v' = set v \<or> set v \<subset> set v')"
    if "expandNode gs edgeTypes respectLayers current dist' (v, q, c) = (v', q', c')"
    for gs edgeTypes respectLayers current dist' v q c v' q' c'
  proof -
    obtain v1 q1 c1
      where o: "foldl (outStep edgeTypes respectLayers dist') (v, q, c) (outEdges gs current)
                  = (v1, q1, c1)"
      by (cases "foldl (outStep edgeTypes respectLayers dist') (v, q, c) (outEdges gs current)")
         auto
    have i: "foldl (inStep edgeTypes respectLayers dist') (v1, q1, c1) (inEdges gs current)
        = (v', q', c')"
      using that o by (simp add: expandNode_def)
    have eo: "\<forall>e \<in> set (outEdges gs current). to_node e \<in> endpoints gs"
      by (auto simp: outEdges_def adjacency_def endpoints_def)
    have ei: "\<forall>e \<in> set (inEdges gs current). from_node e \<in> endpoints gs"
      by (auto simp: inEdges_def adjacency_def endpoints_def)
    have o': "foldl (\<lambda>st e. visitStep edgeTypes respectLayers dist' (to_node e) e st) (v, q, c)
        (outEdges gs current) = (v1, q1, c1)"
      using o by (simp add: outStep_def [abs_def])
    have i': "foldl (\<lambda>st e. visitStep edgeTypes respectLayers dist' (from_node e) e st)
        (v1, q1, c1) (inEdges gs current) = (v', q', c')"
      using i by (simp add: inStep_def [abs_def])
    from fold [OF eo o'] fold [OF ei i']
    show ?thesis by blast
  qed
  show ?thesis
  proof (relation "measures
      [\<lambda>(gs, depth, edgeTypes, respectLayers, (visited, queue, collectedEdges)).
          card (endpoints gs - set visited),
       \<lambda>(gs, depth, edgeTypes, respectLayers, (visited, queue, collectedEdges)). length queue]",
      goal_cases)
    case 1
    then show ?case by simp
  next
    case (2 gs depth edgeTypes respectLayers visited current dist' queue collectedEdges)
    then show ?case by simp
  next
    case (3 gs depth edgeTypes respectLayers visited current dist' queue collectedEdges)
    obtain v' q' c' where e: "expandNode gs edgeTypes respectLayers current dist'
        (visited, queue, collectedEdges) = (v', q', c')"
      by (cases "expandNode gs edgeTypes respectLayers current dist'
            (visited, queue, collectedEdges)") auto
    have fin: "finite (endpoints gs)" by (simp add: endpoints_def)
    from expand [OF e]
    have p: "set visited \<subseteq> set v'" "set v' \<subseteq> set visited \<union> endpoints gs"
      "q' = queue \<and> set v' = set visited \<or> set visited \<subset> set v'" by blast+
    show ?case
    proof (cases "set visited \<subset> set v'")
      case True
      then have "endpoints gs - set v' \<subset> endpoints gs - set visited" using p(2) by blast
      then have "card (endpoints gs - set v') < card (endpoints gs - set visited)"
        using fin by (intro psubset_card_mono) auto
      then show ?thesis using e by simp
    next
      case False
      then have "q' = queue" "set v' = set visited" using p(3) by auto
      then show ?thesis using e by simp
    qed
  qed
qed

text \<open>\<open>traverse\<close>; the result edges are deduplicated by \<open>from|to|type\<close>.\<close>

definition traverse ::
  "GraphStore \<Rightarrow> jsstring \<Rightarrow> int \<Rightarrow> jsstring list option \<Rightarrow> bool \<Rightarrow> GraphNode list \<times> GraphEdge list" where
  "traverse gs root' depth edgeTypes respectLayers =
     (if root' \<notin> set (graph_nodes gs) then ([], [])
      else
        case bfs gs depth edgeTypes respectLayers ([root'], [(root', 0)], []) of
          (visited, collectedEdges) \<Rightarrow>
            (List.map_filter (\<lambda>ident. map_of (nodes gs) ident) visited,
             dedupLoop collectedEdges {}))"

section \<open>Hybrid search (application/queries/hybrid-search.ts)\<close>

text \<open>
  The encoder is an asynchronous collaborator that may keep state (a model that is loaded
  on first use). It is modelled as a function on a world \<open>'w\<close>: a call returns the
  vectors, or the rejection of its promise, and the new world.
\<close>

type_synonym 'w encoder = "jsstring list \<Rightarrow> 'w \<Rightarrow> (error + jsnum list list) \<times> 'w"

text \<open>The input; a field that may be left out is an option, and the defaults are applied
  by the function.\<close>

record HybridSearchInput =
  queryText' :: jsstring
  expandGraph' :: "bool option"
  depth' :: "int option"
  includeKinds' :: "KDDKind list option"
  includeLayers' :: "KDDLayer list option"
  respectLayers' :: "bool option"
  minScore' :: "jsnum option"
  limit' :: "int option"
  maxTokens' :: "int option"

record ScoredNode =
  node_id :: jsstring
  score :: jsnum
  snippet :: jsstring
  match_source :: jsstring

record HybridSearchResult =
  results :: "ScoredNode list"
  graphExpansion :: "GraphEdge list"
  totalResults :: nat
  totalTokens :: int
  warnings :: "jsstring list"

text \<open>
  The evidence: a \<open>Map\<close> from node IDs to a \<open>Map\<close> from the source names
  \<open>semantic\<close>, \<open>lexical\<close>, \<open>graph\<close> to numbers, both as lists of entries in
  insertion order.
\<close>

type_synonym sources = "(jsstring \<times> jsnum) list"

type_synonym evidence = "(jsstring \<times> sources) list"

definition WEIGHT_SEMANTIC :: real where "WEIGHT_SEMANTIC = 6 / 10"

definition WEIGHT_GRAPH :: real where "WEIGHT_GRAPH = 3 / 10"

definition WEIGHT_LEXICAL :: real where "WEIGHT_LEXICAL = 1 / 10"

definition CHARS_PER_TOKEN :: nat where "CHARS_PER_TOKEN = 4"

text \<open>\<open>map.get(key) ?? 0\<close>.\<close>

definition getOr0 :: "sources \<Rightarrow> jsstring \<Rightarrow> jsnum" where
  "getOr0 m key = (case map_of m key of None \<Rightarrow> Fin 0 | Some v \<Rightarrow> v)"

text \<open>\<open>scores.get(id) ?? new Map()\<close>.\<close>

definition getSources :: "evidence \<Rightarrow> jsstring \<Rightarrow> sources" where
  "getSources scores ident = (case map_of scores ident of None \<Rightarrow> [] | Some m \<Rightarrow> m)"

definition embIdToNodeId :: "jsstring \<Rightarrow> GraphStore \<Rightarrow> jsstring option" where
  "embIdToNodeId embId graphStore =
     (let docId = (if includesStr embId (str '':chunk-'')
                   then hd (splitStr embId (str '':chunk-''))
                   else hd (splitStr embId (str '':'')))
      in case find (\<lambda>prefix. hasNode graphStore (prefix @ str '':'' @ docId))
                (map KIND_PREFIX allKinds) of
           Some prefix \<Rightarrow> Some (prefix @ str '':'' @ docId)
         | None \<Rightarrow> if hasNode graphStore docId then Some docId else None)"

definition kindLayerFilter ::
  "GraphNode \<Rightarrow> KDDKind list option \<Rightarrow> KDDLayer list option \<Rightarrow> bool" where
  "kindLayerFilter node includeKinds includeLayers =
     (if includeKinds \<noteq> None \<and> kind node \<notin> set (the includeKinds) then False
      else if includeLayers \<noteq> None \<and> layer node \<notin> set (the includeLayers) then False
      else True)"

definition computeFusionScore :: "sources \<Rightarrow> jsnum" where
  "computeFusionScore srcs =
     (let semantic = getOr0 srcs (str ''semantic'');
          graph = getOr0 srcs (str ''graph'');
          lexical = getOr0 srcs (str ''lexical'');
          sourceCount = length (filter (\<lambda>v. jsgt v (Fin 0)) (map snd srcs));
          bonus = (if sourceCount > 1 then Fin (1 / 10 * (real sourceCount - 1)) else Fin 0);
          weighted =
            jsadd (jsadd (jsadd (jsmul semantic (Fin WEIGHT_SEMANTIC))
                                (jsmul graph (Fin WEIGHT_GRAPH)))
                         (jsmul lexical (Fin WEIGHT_LEXICAL)))
                  bonus
      in Math_min
           (jsdiv weighted (Fin (WEIGHT_SEMANTIC + WEIGHT_GRAPH + WEIGHT_LEXICAL + 2 / 10)))
           (Fin 1))"

definition determineMatchSource :: "sources \<Rightarrow> jsstring" where
  "determineMatchSource srcs =
     (let hasSemantic = jsgt (getOr0 srcs (str ''semantic'')) (Fin 0);
          hasGraph = jsgt (getOr0 srcs (str ''graph'')) (Fin 0)
      in if hasSemantic \<and> hasGraph then str ''fusion''
         else if hasSemantic then str ''semantic''
         else if hasGraph then str ''graph''
         else str ''lexical'')"

definition buildSnippet :: "GraphNode \<Rightarrow> jsstring" where
  "buildSnippet node =
     (let title = map_of (indexed_fields node) (str ''title'')
      in if truthy title then str ''['' @ kindStr (kind node) @ str ''] '' @ String (the title)
         else str ''['' @ kindStr (kind node) @ str ''] '' @ id' node)"

definition countTokens :: "jsstring \<Rightarrow> int" where
  "countTokens text' = max 1 (int (length text' div CHARS_PER_TOKEN))"

text \<open>Phase 1, the loop over the matches of the vector store.\<close>

fun semanticLoop :: "GraphStore \<Rightarrow> (jsstring \<times> jsnum) list \<Rightarrow> evidence \<Rightarrow> evidence" where
  "semanticLoop graphStore [] scores = scores"
| "semanticLoop graphStore ((embId, sc) # matches) scores =
     (case embIdToNodeId embId graphStore of
        None \<Rightarrow> semanticLoop graphStore matches scores
      | Some nodeId \<Rightarrow>
          if nodeId = [] then semanticLoop graphStore matches scores
          else
            let existing = getSources scores nodeId;
                existing' = mapSet existing (str ''semantic'')
                              (Math_max (getOr0 existing (str ''semantic'')) sc)
            in semanticLoop graphStore matches (mapSet scores nodeId existing'))"

text \<open>Phase 2, the loop over the nodes found by the text search.\<close>

fun lexicalLoop ::
  "KDDKind list option \<Rightarrow> KDDLayer list option \<Rightarrow> GraphNode list \<Rightarrow> evidence \<Rightarrow> evidence" where
  "lexicalLoop includeKinds includeLayers [] scores = scores"
| "lexicalLoop includeKinds includeLayers (node # lexicalNodes) scores =
     (if kindLayerFilter node includeKinds includeLayers
      then lexicalLoop includeKinds includeLayers lexicalNodes
             (mapSet scores (id' node)
                (mapSet (getSources scores (id' node)) (str ''lexical'') (Fin (1 / 2))))
      else lexicalLoop includeKinds includeLayers lexicalNodes scores)"

text \<open>Phase 3, the inner loop over the nodes of one traversal and the loop over the seeds.\<close>

fun graphNodeLoop ::
  "KDDKind list option \<Rightarrow> KDDLayer list option \<Rightarrow> jsstring \<Rightarrow> GraphNode list \<Rightarrow> evidence
     \<Rightarrow> evidence" where
  "graphNodeLoop includeKinds includeLayers seedId [] scores = scores"
| "graphNodeLoop includeKinds includeLayers seedId (n # ns) scores =
     (if id' n = seedId then graphNodeLoop includeKinds includeLayers seedId ns scores
      else if kindLayerFilter n includeKinds includeLayers
      then graphNodeLoop includeKinds includeLayers seedId ns
             (mapSet scores (id' n)
                (mapSet (getSources scores (id' n)) (str ''graph'') (Fin (1 / 2))))
      else graphNodeLoop includeKinds includeLayers seedId ns scores)"

fun seedLoop ::
  "GraphStore \<Rightarrow> int \<Rightarrow> bool \<Rightarrow> KDDKind list option \<Rightarrow> KDDLayer list option \<Rightarrow> jsstring list
     \<Rightarrow> evidence \<times> GraphEdge list \<Rightarrow> evidence \<times> GraphEdge list" where
  "seedLoop graphStore depth respectLayers includeKinds includeLayers [] acc = acc"
| "seedLoop graphStore depth respectLayers includeKinds includeLayers (seedId # seedIds)
       (scores, allGraphEdges) =
     (if \<not> hasNode graphStore seedId
      then seedLoop graphStore depth respectLayers includeKinds includeLayers seedIds
             (scores, allGraphEdges)
      else
        case traverse graphStore seedId depth None respectLayers of
          (ns, edges) \<Rightarrow>
            seedLoop graphStore depth respectLayers includeKinds includeLayers seedIds
              (graphNodeLoop includeKinds includeLayers seedId ns scores,
               allGraphEdges @ edges))"

text \<open>Phase 4, the loop over the evidence.\<close>

fun fusionLoop ::
  "GraphStore \<Rightarrow> KDDKind list option \<Rightarrow> KDDLayer list option \<Rightarrow> jsnum \<Rightarrow> evidence
     \<Rightarrow> ScoredNode list \<Rightarrow> ScoredNode list" where
  "fusionLoop graphStore includeKinds includeLayers minScore [] fused = fused"
| "fusionLoop graphStore includeKinds includeLayers minScore ((nodeId, srcs) # rest) fused =
     (case getNode graphStore nodeId of
        None \<Rightarrow> fusionLoop graphStore includeKinds includeLayers minScore rest fused
      | Some node \<Rightarrow>
          if \<not> kindLayerFilter node includeKinds includeLayers
          then fusionLoop graphStore includeKinds includeLayers minScore rest fused
          else if jslt (computeFusionScore srcs) minScore
          then fusionLoop graphStore includeKinds includeLayers minScore rest fused
          else fusionLoop graphStore includeKinds includeLayers minScore rest
                 (fused @ [\<lparr>node_id = nodeId, score = computeFusionScore srcs,
                             snippet = buildSnippet node,
                             match_source = determineMatchSource srcs\<rparr>]))"

text \<open>The token truncation loop, with \<open>finalResults\<close> and \<open>totalTokens\<close>.\<close>

fun truncateLoop ::
  "int \<Rightarrow> int \<Rightarrow> ScoredNode list \<Rightarrow> ScoredNode list \<times> int \<Rightarrow> ScoredNode list \<times> int" where
  "truncateLoop limit maxTokens [] acc = acc"
| "truncateLoop limit maxTokens (scored # rest) (finalResults, tokens) =
     (let snippetTokens = countTokens (snippet scored)
      in if tokens + snippetTokens > maxTokens \<and> length finalResults > 0
         then (finalResults, tokens)
         else if int (length (finalResults @ [scored])) \<ge> limit
         then (finalResults @ [scored], tokens + snippetTokens)
         else truncateLoop limit maxTokens rest
                (finalResults @ [scored], tokens + snippetTokens))"

text \<open>
  The body of \<open>hybridSearch\<close> behind the encoder call. \<open>matches\<close> are the matches of the
  vector store, or nothing when the semantic phase is skipped.
\<close>

definition hybridPhases ::
  "HybridSearchInput \<Rightarrow> GraphStore \<Rightarrow> (jsstring \<times> jsnum) list option \<Rightarrow> HybridSearchResult" where
  "hybridPhases input graphStore matches =
     (let queryText = queryText' input;
          expandGraph = (case expandGraph' input of None \<Rightarrow> True | Some b \<Rightarrow> b);
          depth = (case depth' input of None \<Rightarrow> 2 | Some d \<Rightarrow> d);
          includeKinds = includeKinds' input;
          includeLayers = includeLayers' input;
          respectLayers = (case respectLayers' input of None \<Rightarrow> True | Some b \<Rightarrow> b);
          minScore = (case minScore' input of None \<Rightarrow> Fin (1 / 2) | Some m \<Rightarrow> m);
          limit = (case limit' input of None \<Rightarrow> 10 | Some l \<Rightarrow> l);
          maxTokens = (case maxTokens' input of None \<Rightarrow> 8000 | Some t \<Rightarrow> t);
          warnings0 =
            (case matches of
               Some ms \<Rightarrow> []
             | None \<Rightarrow> [str ''NO_EMBEDDINGS: index is L1, semantic search skipped'']);
          scores1 =
            (case matches of Some ms \<Rightarrow> semanticLoop graphStore ms [] | None \<Rightarrow> []);
          lexicalNodes = textSearch graphStore queryText None;
          scores2 = lexicalLoop includeKinds includeLayers lexicalNodes scores1;
          (scores3, allGraphEdges) =
            (if expandGraph
             then seedLoop graphStore depth respectLayers includeKinds includeLayers
                    (map fst scores2) (scores2, [])
             else (scores2, []));
          fused = fusionLoop graphStore includeKinds includeLayers minScore scores3 [];
          sorted' = sortBy (\<lambda>a b. jssub (score b) (score a)) fused;
          (finalResults, tokens) = truncateLoop limit maxTokens sorted' ([], 0);
          uniqueEdges = dedupLoop allGraphEdges {}
      in \<lparr>results = finalResults, graphExpansion = uniqueEdges,
          totalResults = length finalResults, totalTokens = tokens, warnings = warnings0\<rparr>)"

text \<open>
  \<open>hybridSearch\<close>. \<open>vectors[0]\<close> of an empty answer is \<open>undefined\<close>, which makes an empty
  \<open>Float64Array\<close>.
\<close>

definition hybridSearch ::
  "HybridSearchInput \<Rightarrow> GraphStore \<Rightarrow> VectorStore option \<Rightarrow> 'w encoder option \<Rightarrow> 'w
     \<Rightarrow> (error + HybridSearchResult) \<times> 'w" where
  "hybridSearch input graphStore vectorStore encodeFn w =
     (if length (trim (queryText' input)) < 3 then (Inl QUERY_TOO_SHORT, w)
      else
        case (vectorStore, encodeFn) of
          (Some vs, Some enc) \<Rightarrow>
            (case enc [queryText' input] w of
               (Inl e, w') \<Rightarrow> (Inl e, w')
             | (Inr vectors, w') \<Rightarrow>
                 let minScore = (case minScore' input of None \<Rightarrow> Fin (1 / 2) | Some m \<Rightarrow> m);
                     limit = (case limit' input of None \<Rightarrow> 10 | Some l \<Rightarrow> l);
                     matches = search vs (case vectors of [] \<Rightarrow> [] | v # _ \<Rightarrow> v) (limit * 3)
                                 (jsmul minScore (Fin (8 / 10)))
                 in (Inr (hybridPhases input graphStore (Some matches)), w'))
        | _ \<Rightarrow> (Inr (hybridPhases input graphStore None), w))"

section \<open>Semantic query\<close>

record SemanticQueryInput =
  sq_queryText :: jsstring
  sq_includeKinds :: "KDDKind list option"
  sq_includeLayers :: "KDDLayer list option"
  sq_minScore :: "jsnum option"
  sq_limit :: "int option"

record SemanticQueryResult =
  sq_results :: "ScoredNode list"
  sq_totalResults :: nat
  embeddingModel :: jsstring

definition findNodeForDoc :: "jsstring \<Rightarrow> GraphStore \<Rightarrow> GraphNode option" where
  "findNodeForDoc docId graphStore =
     (case List.map_filter (\<lambda>prefix. getNode graphStore (prefix @ str '':'' @ docId))
             (map KIND_PREFIX allKinds) of
        node # _ \<Rightarrow> Some node
      | [] \<Rightarrow> getNode graphStore docId)"

text \<open>The loop over the matches, with the set \<open>seenNodes\<close> and the results so far.\<close>

fun semanticResultLoop ::
  "GraphStore \<Rightarrow> KDDKind list option \<Rightarrow> KDDLayer list option \<Rightarrow> int \<Rightarrow> (jsstring \<times> jsnum) list
     \<Rightarrow> jsstring set \<Rightarrow> ScoredNode list \<Rightarrow> ScoredNode list" where
  "semanticResultLoop graphStore includeKinds includeLayers limit [] seenNodes res = res"
| "semanticResultLoop graphStore includeKinds includeLayers limit ((embId, sc) # matches)
       seenNodes res =
     (let docId = (if includesStr embId (str '':chunk-'')
                   then hd (splitStr embId (str '':chunk-''))
                   else hd (splitStr embId (str '':'')))
      in case findNodeForDoc docId graphStore of
           None \<Rightarrow>
             semanticResultLoop graphStore includeKinds includeLayers limit matches seenNodes res
         | Some node \<Rightarrow>
             if id' node \<in> seenNodes
             then semanticResultLoop graphStore includeKinds includeLayers limit matches
                    seenNodes res
             else if \<not> kindLayerFilter node includeKinds includeLayers
             then semanticResultLoop graphStore includeKinds includeLayers limit matches
                    (insert (id' node) seenNodes) res
             else
               let res' = res @ [\<lparr>node_id = id' node, score = sc, snippet = buildSnippet node,
                                   match_source = str ''semantic''\<rparr>]
               in if int (length res') \<ge> limit then res'
                  else semanticResultLoop graphStore includeKinds includeLayers limit matches
                         (insert (id' node) seenNodes) res')"

definition semanticQuery ::
  "SemanticQueryInput \<Rightarrow> VectorStore \<Rightarrow> GraphStore \<Rightarrow> 'w encoder \<Rightarrow> jsstring \<Rightarrow> 'w
     \<Rightarrow> (error + SemanticQueryResult) \<times> 'w" where
  "semanticQuery input vectorStore graphStore encodeFn modelName w =
     (if length (trim (sq_queryText input)) < 3 then (Inl QUERY_TOO_SHORT, w)
      else
        case encodeFn [sq_queryText input] w of
          (Inl e, w') \<Rightarrow> (Inl e, w')
        | (Inr vectors, w') \<Rightarrow>
            let minScore = (case sq_minScore input of None \<Rightarrow> Fin (7 / 10) | Some m \<Rightarrow> m);
                limit = (case sq_limit input of None \<Rightarrow> 10 | Some l \<Rightarrow> l);
                matches = search vectorStore (case vectors of [] \<Rightarrow> [] | v # _ \<Rightarrow> v)
                            (limit * 3) minScore;
                res = semanticResultLoop graphStore (sq_includeKinds input)
                        (sq_includeLayers input) limit matches {} []
            in (Inr \<lparr>sq_results = res, sq_totalResults = length res,
                      embeddingModel = modelName\<rparr>, w'))"

section \<open>Example inputs\<close>

definition exampleDoc :: KDDDocument where
  "exampleDoc = \<lparr>doc_id = str ''A'', doc_kind = ENTITY,
     source_path = str ''specs/01-domain/entities/A.md'', doc_source_hash = [],
     doc_layer = DOMAIN, front_matter = [], sections = [], wiki_links = [],
     doc_domain = None\<rparr>"

definition nodeA :: GraphNode where
  "nodeA = \<lparr>id' = str ''Entity:A'', kind = ENTITY,
     source_file = str ''specs/01-domain/entities/A.md'', source_hash = [], layer = DOMAIN,
     status = str ''draft'', aliases = [], domain = None, indexed_fields = [],
     indexed_at = []\<rparr>"

definition nodeB :: GraphNode where
  "nodeB = \<lparr>id' = str ''Event:EVT-B'', kind = EVENT,
     source_file = str ''specs/01-domain/events/EVT-B.md'', source_hash = [], layer = DOMAIN,
     status = str ''draft'', aliases = [], domain = None, indexed_fields = [],
     indexed_at = []\<rparr>"

definition mkEdge :: "jsstring \<Rightarrow> jsstring \<Rightarrow> jsstring \<Rightarrow> GraphEdge" where
  "mkEdge f t ty = \<lparr>from_node = f, to_node = t, edge_type = ty, edge_source_file = [],
     extraction_method = [], metadata = [], layer_violation = False, bidirectional = False\<rparr>"

text \<open>An entity with one outgoing \<open>EMITS\<close> edge to an event (scenario 5 of the spec).\<close>

definition storeAB :: GraphStore where
  "storeAB =
     \<lparr>graph_nodes = [str ''Entity:A'', str ''Event:EVT-B''],
      graph_edges =
        [(edgeKey (mkEdge (str ''Entity:A'') (str ''Event:EVT-B'') (str ''EMITS'')),
          mkEdge (str ''Entity:A'') (str ''Event:EVT-B'') (str ''EMITS''))],
      nodes = [(str ''Entity:A'', nodeA), (str ''Event:EVT-B'', nodeB)]\<rparr>"

text \<open>Two vector stores with one-dimensional vectors; the first holds a zero vector.\<close>

definition vstore2 :: VectorStore where
  "vstore2 = \<lparr>entries = [(str ''a:chunk-0'', [Fin 0]), (str ''b:chunk-0'', [Fin 1])]\<rparr>"

definition vstore3 :: VectorStore where
  "vstore3 =
     \<lparr>entries = [(str ''a:chunk-0'', [Fin 1]), (str ''b:chunk-0'', [Fin 1]),
                (str ''c:chunk-0'', [Fin 1])]\<rparr>"

text \<open>
  A double whose square is below half of the smallest positive double, and a store with
  one vector made of it.
\<close>

definition tiny :: real where
  "tiny = 2 powi (- 600)"

definition vstoreTiny :: VectorStore where
  "vstoreTiny = \<lparr>entries = [(str ''t:chunk-0'', [Fin tiny])]\<rparr>"

text \<open>
  A table without a separator line: a header, three well-formed data lines and, before
  the last one, a line with a single cell.
\<close>

definition tableText :: jsstring where
  "tableText = str ''| a | `b` |'' @ NL @ str ''| 1 | 2 |'' @ NL @ str ''| 3 | 4 |'' @ NL
     @ str ''| 5 |'' @ NL @ str ''| 6 | 7 | 8 |''"

text \<open>An entity document with one embeddable section of the given body.\<close>

definition docWithBody :: "jsstring \<Rightarrow> KDDDocument" where
  "docWithBody body =
     \<lparr>doc_id = str ''A'', doc_kind = ENTITY,
      source_path = str ''specs/01-domain/entities/A.md'', doc_source_hash = [],
      doc_layer = DOMAIN, front_matter = [],
      sections = [\<lparr>heading = str ''Description'', level = 2, content = body,
                    path = str ''a.description''\<rparr>],
      wiki_links = [], doc_domain = None\<rparr>"

text \<open>
  A store with two nodes and no edge; the title of the first node contains the query
  text \<open>impact analysis\<close>, the second node does not match it.
\<close>

definition nodeImpact :: GraphNode where
  "nodeImpact = \<lparr>id' = str ''QRY:QRY-004'', kind = QUERY,
     source_file = str ''specs/02-behavior/queries/QRY-004.md'', source_hash = [],
     layer = BEHAVIOR, status = str ''draft'', aliases = [], domain = None,
     indexed_fields = [(str ''title'', JStr (str ''Impact Analysis''))], indexed_at = []\<rparr>"

definition storeImpact :: GraphStore where
  "storeImpact =
     \<lparr>graph_nodes = [str ''QRY:QRY-004'', str ''Event:EVT-B''],
      graph_edges = [],
      nodes = [(str ''QRY:QRY-004'', nodeImpact), (str ''Event:EVT-B'', nodeB)]\<rparr>"

definition impactInput :: "jsnum option \<Rightarrow> HybridSearchInput" where
  "impactInput m =
     \<lparr>queryText' = str ''impact analysis'', expandGraph' = None, depth' = None,
      includeKinds' = None, includeLayers' = None, respectLayers' = None, minScore' = m,
      limit' = None, maxTokens' = None\<rparr>"

text \<open>An encoder that counts its calls.\<close>

definition countingEncoder :: "nat encoder" where
  "countingEncoder texts n = (Inr (map (\<lambda>t. [Fin 1]) texts), n + 1)"

text \<open>A document of two sections with four wiki links, two of them to the same target.\<close>

definition linkDoc :: KDDDocument where
  "linkDoc =
     \<lparr>doc_id = str ''Customer'', doc_kind = ENTITY,
      source_path = str ''specs/01-domain/entities/Customer.md'', doc_source_hash = str ''h'',
      doc_layer = DOMAIN, front_matter = [(str ''kind'', JStr (str ''entity''))],
      sections =
        [\<lparr>heading = str ''Description'', level = 2,
          content = str ''Used by [[UC-001]] and [[ billing::Order|the order ]].'',
          path = str ''description''\<rparr>,
         \<lparr>heading = str ''Notes'', level = 2,
          content = str ''See [[OBJ-001]], [[UC-001|again]] and [[ ]].'',
          path = str ''notes''\<rparr>],
      wiki_links = [], doc_domain = None\<rparr>"

section \<open>Verified properties\<close>

subsection \<open>Evaluation of string literals\<close>

lemma str_Nil: "str [] = []"
  by (simp add: str_def)

lemma str_Cons: "str (c # cs) = of_char c # str cs"
  by (simp add: str_def)

lemmas string_eval =
  str_Nil str_Cons trim_def trimStart_def trimEnd_def toLowerCase_def lowerUnit_def
  isSpace_def NL_def

subsection \<open>Enumeration of the edges at a node\<close>

lemmas adjacency_eval =
  adjacency_def ownKeys_def firstSeen_def arrayIndex_def isDigit_def digitsValue_def

lemma set_ownKeys: "set (ownKeys ks) = set ks"
  by (auto simp: ownKeys_def)

lemma set_adjacency: "set (adjacency neighbour es) = set es"
  by (auto simp: adjacency_def set_ownKeys firstSeen_def)

lemma set_outEdges:
  "set (outEdges st nodeId) = {e \<in> snd ` set (graph_edges st). from_node e = nodeId}"
  by (auto simp: outEdges_def set_adjacency)

lemma set_inEdges:
  "set (inEdges st nodeId) = {e \<in> snd ` set (graph_edges st). to_node e = nodeId}"
  by (auto simp: inEdges_def set_adjacency)

subsection \<open>Kind routing\<close>

text \<open>
  Claim C8. \<open>routeDocument\<close> with front-matter \<open>{ kind: "entity" }\<close> returns kind
  \<open>entity\<close> and no warning for the source path
  \<open>specs/01-domain/entities/KDDDocument.md\<close>, and kind \<open>entity\<close> with the warning
  \<open>entity 'specs/02-behavior/Stray.md' found outside expected path '01-domain/entities/'\<close>
  for the source path \<open>specs/02-behavior/Stray.md\<close> (code unit 39 is the apostrophe).
\<close>

theorem routeDocument_entity_scenarios:
  "routeDocument (Some [(str ''kind'', JStr (str ''entity''))])
       (str ''specs/01-domain/entities/KDDDocument.md'')
     = \<lparr>route_kind = Some (Own ENTITY), warning = None\<rparr>
   \<and> routeDocument (Some [(str ''kind'', JStr (str ''entity''))])
       (str ''specs/02-behavior/Stray.md'')
     = \<lparr>route_kind = Some (Own ENTITY),
        warning = Some (str ''entity '' @ [39] @ str ''specs/02-behavior/Stray.md'' @ [39]
                  @ str '' found outside expected path '' @ [39]
                  @ str ''01-domain/entities/'' @ [39])\<rparr>"
  by (simp add: routeDocument_def string_eval lookupLiteral_def KIND_LOOKUP_def allKinds_def
      objectPrototypeKeys_def Let_def)

subsection \<open>Layer violations\<close>

lemma map_pair_zip: "map (\<lambda>e. (f e, g e)) xs = zip (map f xs) (map g xs)"
  by (induction xs) simp_all

lemma splitAcc_hd_colon:
  "58 \<notin> set p \<Longrightarrow> hd (splitAcc [58] acc (p @ 58 # t)) = rev acc @ p"
  by (induction p arbitrary: acc) simp_all

lemma includesStr_colon: "includesStr (p @ 58 # t) [58]"
  by (induction p) simp_all

lemma guessLayer_prefix:
  "58 \<notin> set p \<Longrightarrow> guessLayerFromNodeId (p @ str '':'' @ t) = lookupLiteral layerMap p"
  using splitAcc_hd_colon [of p "[]" t] includesStr_colon [of p t]
  by (simp add: guessLayerFromNodeId_def splitStr_def str_def)

lemma resolveWikiLinkToNodeId_layer:
  "\<exists>toNodeId destLayer. resolveWikiLinkToNodeId link = Some toNodeId
     \<and> guessLayerFromNodeId toNodeId = Some (Own destLayer)"
proof -
  have own: "\<And>p. p \<in> {str ''Event'', str ''BR'', str ''BP'', str ''XP'', str ''CMD'',
        str ''QRY'', str ''UC'', str ''PROC'', str ''REQ'', str ''OBJ'', str ''ADR'',
        str ''PRD'', str ''UIView'', str ''Entity''}
      \<Longrightarrow> \<exists>destLayer. guessLayerFromNodeId (p @ str '':'' @ target link) = Some (Own destLayer)"
  proof -
    fix p :: jsstring
    assume p: "p \<in> {str ''Event'', str ''BR'', str ''BP'', str ''XP'', str ''CMD'',
        str ''QRY'', str ''UC'', str ''PROC'', str ''REQ'', str ''OBJ'', str ''ADR'',
        str ''PRD'', str ''UIView'', str ''Entity''}"
    then have "58 \<notin> set p" by (auto simp: string_eval)
    then have "guessLayerFromNodeId (p @ str '':'' @ target link) = lookupLiteral layerMap p"
      by (rule guessLayer_prefix)
    moreover from p have "\<exists>destLayer. lookupLiteral layerMap p = Some (Own destLayer)"
      by (auto simp: lookupLiteral_def layerMap_def string_eval)
    ultimately show "\<exists>destLayer. guessLayerFromNodeId (p @ str '':'' @ target link)
        = Some (Own destLayer)"
      by simp
  qed
  have "\<exists>p \<in> {str ''Event'', str ''BR'', str ''BP'', str ''XP'', str ''CMD'',
        str ''QRY'', str ''UC'', str ''PROC'', str ''REQ'', str ''OBJ'', str ''ADR'',
        str ''PRD'', str ''UIView'', str ''Entity''}.
      resolveWikiLinkToNodeId link = Some (p @ str '':'' @ target link)"
    by (simp add: resolveWikiLinkToNodeId_def Let_def string_eval)
  with own show ?thesis by blast
qed

lemma wikiLinkLoop_flag:
  assumes "\<forall>e \<in> set edges. layer_violation e = linkViolation fromLayer (to_node e)
      \<and> (\<exists>destLayer. guessLayerFromNodeId (to_node e) = Some (Own destLayer))"
  shows "\<forall>e \<in> set (wikiLinkLoop document fromNodeId fromLayer links seen edges).
           layer_violation e = linkViolation fromLayer (to_node e)
           \<and> (\<exists>destLayer. guessLayerFromNodeId (to_node e) = Some (Own destLayer))"
  using assms
proof (induction links arbitrary: seen edges)
  case Nil
  then show ?case by simp
next
  case (Cons link links)
  note IH = Cons.IH
  obtain toNodeId destLayer where r: "resolveWikiLinkToNodeId link = Some toNodeId"
    and g: "guessLayerFromNodeId toNodeId = Some (Own destLayer)"
    using resolveWikiLinkToNodeId_layer [of link] by blast
  let ?new = "\<lparr>from_node = fromNodeId, to_node = toNodeId,
                       edge_type = str ''WIKI_LINK'',
                       edge_source_file = source_path document,
                       extraction_method = str ''wiki_link'',
                       metadata = linkMetadata link,
                       layer_violation = linkViolation fromLayer toNodeId,
                       bidirectional = True\<rparr>"
  have ext: "\<forall>e \<in> set (edges @ [?new]).
      layer_violation e = linkViolation fromLayer (to_node e)
      \<and> (\<exists>destLayer. guessLayerFromNodeId (to_node e) = Some (Own destLayer))"
    using Cons.prems g by simp
  show ?case
    using IH [OF Cons.prems] IH [OF ext]
    by (simp only: wikiLinkLoop.simps r option.case Let_def split: if_splits) simp
qed

text \<open>
  Claim C2. For every pair of layers, \<open>isLayerViolation origin destination\<close> holds if and
  only if the origin is not the requirements layer and the numeric order of the origin
  is strictly below that of the destination. Every edge that \<open>buildWikiLinkEdges\<close>
  builds from the wiki links of a document carries as \<open>layer_violation\<close> that predicate
  on the layer found for the prefix of its destination node ID, and \<open>false\<close> when the
  prefix resolves to no layer. That second case does not arise for an edge built there:
  \<open>resolveWikiLinkToNodeId\<close> only gives node IDs whose prefix is a key of the layer
  table. For a node ID whose prefix is no key, the flag computed in the loop is \<open>false\<close>.
\<close>

theorem layer_violation_rule:
  "(isLayerViolation origin destination \<longleftrightarrow>
      origin \<noteq> REQUIREMENTS \<and> LAYER_NUMERIC origin < LAYER_NUMERIC destination)
   \<and> (\<forall>e \<in> set (buildWikiLinkEdges document fromNodeId fromLayer).
        layer_violation e =
          (case guessLayerFromNodeId (to_node e) of
             Some (Own destLayer) \<Rightarrow> isLayerViolation fromLayer destLayer
           | _ \<Rightarrow> False))
   \<and> (\<forall>e \<in> set (buildWikiLinkEdges document fromNodeId fromLayer).
        \<exists>destLayer. guessLayerFromNodeId (to_node e) = Some (Own destLayer))
   \<and> (guessLayerFromNodeId toNodeId = None \<longrightarrow> \<not> linkViolation fromLayer toNodeId)"
proof (intro conjI)
  show "isLayerViolation origin destination \<longleftrightarrow>
      origin \<noteq> REQUIREMENTS \<and> LAYER_NUMERIC origin < LAYER_NUMERIC destination"
    by (simp add: isLayerViolation_def)
next
  have inv: "\<forall>e \<in> set (buildWikiLinkEdges document fromNodeId fromLayer).
          layer_violation e = linkViolation fromLayer (to_node e)
          \<and> (\<exists>destLayer. guessLayerFromNodeId (to_node e) = Some (Own destLayer))"
    unfolding buildWikiLinkEdges_def Let_def by (rule wikiLinkLoop_flag) simp
  from inv show "\<forall>e \<in> set (buildWikiLinkEdges document fromNodeId fromLayer).
        layer_violation e =
          (case guessLayerFromNodeId (to_node e) of
             Some (Own destLayer) \<Rightarrow> isLayerViolation fromLayer destLayer
           | _ \<Rightarrow> False)"
    by (auto simp: linkViolation_def split: option.splits looked.splits)
  from inv show "\<forall>e \<in> set (buildWikiLinkEdges document fromNodeId fromLayer).
        \<exists>destLayer. guessLayerFromNodeId (to_node e) = Some (Own destLayer)"
    by blast
next
  show "guessLayerFromNodeId toNodeId = None \<longrightarrow> \<not> linkViolation fromLayer toNodeId"
    by (simp add: linkViolation_def)
qed

lemma extractWikiLinks_linkDoc:
  "extractWikiLinks (join (map content (sections linkDoc)) NL) =
     [\<lparr>raw = str ''UC-001'', target = str ''UC-001'', link_domain = None, link_alias = None\<rparr>,
      \<lparr>raw = str ''billing::Order|the order'', target = str ''Order'',
        link_domain = Some (str ''billing''), link_alias = Some (str ''the order'')\<rparr>,
      \<lparr>raw = str ''OBJ-001'', target = str ''OBJ-001'', link_domain = None,
        link_alias = None\<rparr>,
      \<lparr>raw = str ''UC-001|again'', target = str ''UC-001'', link_domain = None,
        link_alias = Some (str ''again'')\<rparr>]"
  by (simp add: extractWikiLinks_def linkDoc_def wikiLinkOfMatch_def split2_def
      splitStr_def Let_def string_eval)

theorem layer_violation_rule_witness:
  "isLayerViolation DOMAIN BEHAVIOR \<and> \<not> isLayerViolation BEHAVIOR DOMAIN
   \<and> map (\<lambda>e. (to_node e, layer_violation e))
         (buildWikiLinkEdges linkDoc (str ''Entity:Customer'') DOMAIN)
       = [(str ''UC:UC-001'', True), (str ''Entity:Order'', False), (str ''OBJ:OBJ-001'', False)]
   \<and> guessLayerFromNodeId (str ''Misc:X'') = None
   \<and> \<not> linkViolation DOMAIN (str ''Misc:X'')"
proof -
  let ?edges = "buildWikiLinkEdges linkDoc (str ''Entity:Customer'') DOMAIN"
  have n: "guessLayerFromNodeId (str ''Misc:X'') = None"
    by (simp add: guessLayerFromNodeId_def splitStr_def lookupLiteral_def layerMap_def
        objectPrototypeKeys_def string_eval)
  have g: "guessLayerFromNodeId (str ''UC:UC-001'') = Some (Own BEHAVIOR)"
    "guessLayerFromNodeId (str ''Entity:Order'') = Some (Own DOMAIN)"
    "guessLayerFromNodeId (str ''OBJ:OBJ-001'') = Some (Own REQUIREMENTS)"
    by (simp_all add: guessLayerFromNodeId_def splitStr_def lookupLiteral_def layerMap_def
        string_eval)
  have t: "map to_node ?edges = [str ''UC:UC-001'', str ''Entity:Order'', str ''OBJ:OBJ-001'']"
    unfolding buildWikiLinkEdges_def Let_def extractWikiLinks_linkDoc
    by (simp add: resolveWikiLinkToNodeId_def string_eval)
  from layer_violation_rule [where origin = DOMAIN and destination = BEHAVIOR
      and document = linkDoc and fromNodeId = "str ''Entity:Customer''" and fromLayer = DOMAIN
      and toNodeId = "str ''Misc:X''"] n
  have 1: "isLayerViolation DOMAIN BEHAVIOR"
    and 2: "\<forall>e \<in> set ?edges.
        layer_violation e =
          (case guessLayerFromNodeId (to_node e) of
             Some (Own destLayer) \<Rightarrow> isLayerViolation DOMAIN destLayer
           | _ \<Rightarrow> False)"
    and 3: "\<not> linkViolation DOMAIN (str ''Misc:X'')"
    by simp_all
  from layer_violation_rule [where origin = BEHAVIOR and destination = DOMAIN]
  have 4: "\<not> isLayerViolation BEHAVIOR DOMAIN" by simp
  from layer_violation_rule [where origin = DOMAIN and destination = DOMAIN]
  have 5: "\<not> isLayerViolation DOMAIN DOMAIN" by simp
  from layer_violation_rule [where origin = DOMAIN and destination = REQUIREMENTS]
  have 6: "\<not> isLayerViolation DOMAIN REQUIREMENTS" by simp
  from 2 have "map layer_violation ?edges =
      map (\<lambda>e. case guessLayerFromNodeId (to_node e) of
             Some (Own destLayer) \<Rightarrow> isLayerViolation DOMAIN destLayer
           | _ \<Rightarrow> False) ?edges"
    by simp
  also have "\<dots> = map (\<lambda>i. case guessLayerFromNodeId i of
             Some (Own destLayer) \<Rightarrow> isLayerViolation DOMAIN destLayer
           | _ \<Rightarrow> False) (map to_node ?edges)"
    by (simp add: comp_def)
  also have "\<dots> = [True, False, False]"
    unfolding t using g 1 5 6 by simp
  finally have f: "map layer_violation ?edges = [True, False, False]" .
  have "map (\<lambda>e. (to_node e, layer_violation e)) ?edges
      = zip (map to_node ?edges) (map layer_violation ?edges)"
    by (rule map_pair_zip)
  then show ?thesis using 1 3 4 n t f by simp
qed

subsection \<open>Loading the graph store\<close>

lemma mapSet_fresh: "k \<notin> set (map fst m) \<Longrightarrow> mapSet m k v = m @ [(k, v)]"
  by (induction m) auto

lemma loadNodes_distinct:
  assumes "distinct (map id' ns)" "set (map id' ns) \<inter> set (graph_nodes st) = {}"
    "map fst (nodes st) = graph_nodes st"
  shows "loadNodes ns st =
     Inr (st\<lparr>graph_nodes := graph_nodes st @ map id' ns,
             nodes := nodes st @ map (\<lambda>n. (id' n, n)) ns\<rparr>)"
  using assms
proof (induction ns arbitrary: st)
  case Nil
  then show ?case by simp
next
  case (Cons node ns)
  let ?st = "st\<lparr>graph_nodes := graph_nodes st @ [id' node],
                 nodes := mapSet (nodes st) (id' node) node\<rparr>"
  have fresh: "id' node \<notin> set (graph_nodes st)" using Cons.prems by auto
  then have ms: "mapSet (nodes st) (id' node) node = nodes st @ [(id' node, node)]"
    using Cons.prems(3) by (simp add: mapSet_fresh)
  have "loadNodes ns ?st = Inr (?st\<lparr>graph_nodes := graph_nodes ?st @ map id' ns,
             nodes := nodes ?st @ map (\<lambda>n. (id' n, n)) ns\<rparr>)"
    using Cons.prems ms by (intro Cons.IH) auto
  then show ?case using fresh ms by simp
qed


lemma loadEdges_nodes [simp]:
  "graph_nodes (loadEdges es st) = graph_nodes st" "nodes (loadEdges es st) = nodes st"
  by (induction es arbitrary: st) (simp_all add: Let_def)

lemma loadEdges_ok: "edgesOk st \<Longrightarrow> edgesOk (loadEdges es st)"
proof (induction es arbitrary: st)
  case Nil
  then show ?case by simp
next
  case (Cons edge es)
  let ?st = "st\<lparr>graph_edges := graph_edges st @ [(edgeKey edge, edge)]\<rparr>"
  have "edgesOk ?st"
    if "from_node edge \<in> set (graph_nodes st)" "to_node edge \<in> set (graph_nodes st)"
       "edgeKey edge \<notin> set (map fst (graph_edges st))"
    using that Cons.prems by (auto simp: edgesOk_def)
  then show ?case using Cons by (auto simp: Let_def)
qed

lemma loadEdges_subset:
  "set (map snd (graph_edges (loadEdges es st))) \<subseteq> set (map snd (graph_edges st)) \<union> set es"
proof (induction es arbitrary: st)
  case Nil
  then show ?case by simp
next
  case (Cons edge es)
  let ?st = "st\<lparr>graph_edges := graph_edges st @ [(edgeKey edge, edge)]\<rparr>"
  show ?case using Cons [of st] Cons [of ?st] by (auto simp: Let_def)
qed

lemma loadEdges_keeps:
  "set (map fst (graph_edges st)) \<subseteq> set (map fst (graph_edges (loadEdges es st)))"
proof (induction es arbitrary: st)
  case Nil
  then show ?case by simp
next
  case (Cons edge es)
  let ?st = "st\<lparr>graph_edges := graph_edges st @ [(edgeKey edge, edge)]\<rparr>"
  show ?case using Cons [of st] Cons [of ?st] by (auto simp: Let_def)
qed

lemma loadEdges_complete:
  assumes "e \<in> set es" "from_node e \<in> set (graph_nodes st)" "to_node e \<in> set (graph_nodes st)"
  shows "edgeKey e \<in> set (map fst (graph_edges (loadEdges es st)))"
  using assms
proof (induction es arbitrary: st)
  case Nil
  then show ?case by simp
next
  case (Cons edge es)
  let ?st = "st\<lparr>graph_edges := graph_edges st @ [(edgeKey edge, edge)]\<rparr>"
  show ?case
  proof (cases "e = edge")
    case True
    then show ?thesis
      using Cons.prems loadEdges_keeps [of st es] loadEdges_keeps [of ?st es]
      by (auto simp: Let_def)
  next
    case False
    then have "e \<in> set es" using Cons.prems by simp
    then show ?thesis
      using Cons.IH [of st] Cons.IH [of ?st] Cons.prems by (auto simp: Let_def)
  qed
qed

lemma distinct_key_triples:
  assumes "distinct (map edgeKey es)"
  shows "distinct (map (\<lambda>e. (from_node e, to_node e, edge_type e)) es)"
  using assms
proof (induction es)
  case Nil
  then show ?case by simp
next
  case (Cons e es)
  have "(from_node e, to_node e, edge_type e) \<notin> (\<lambda>e. (from_node e, to_node e, edge_type e)) ` set es"
  proof
    assume "(from_node e, to_node e, edge_type e) \<in> (\<lambda>e. (from_node e, to_node e, edge_type e)) ` set es"
    then obtain e' where "e' \<in> set es" "from_node e' = from_node e" "to_node e' = to_node e"
      "edge_type e' = edge_type e" by auto
    then have "edgeKey e' = edgeKey e" "e' \<in> set es" by (simp_all add: edgeKey_def)
    then have "edgeKey e \<in> edgeKey ` set es" by (metis imageI)
    with Cons.prems show False by simp
  qed
  with Cons show ?case by simp
qed

lemma edgesOk_keys: "edgesOk st \<Longrightarrow> map fst (graph_edges st) = map edgeKey (map snd (graph_edges st))"
  by (auto simp: edgesOk_def)

text \<open>
  Claim C6, as amended. For every list of nodes with pairwise distinct IDs and every list
  of edges, \<open>load\<close> returns, whatever the store held before, a store whose nodes are
  exactly the given nodes; its edges are among the given edges, every stored edge has
  both endpoints among the stored nodes, no two stored edges share
  \<open>(from, to, edge_type)\<close>, and every given edge with both endpoints present has a
  stored edge under its key.
\<close>

theorem load_distinct_nodes:
  assumes "distinct (map id' ns)"
  shows "\<exists>st'. load ns es st = Inr st' \<and> allNodes st' = ns
      \<and> (\<forall>ident. hasNode st' ident \<longleftrightarrow> ident \<in> set (map id' ns))
      \<and> set (allEdges st') \<subseteq> set es
      \<and> (\<forall>e \<in> set (allEdges st'). hasNode st' (from_node e) \<and> hasNode st' (to_node e))
      \<and> distinct (map (\<lambda>e. (from_node e, to_node e, edge_type e)) (allEdges st'))
      \<and> (\<forall>e \<in> set es. hasNode st' (from_node e) \<and> hasNode st' (to_node e) \<longrightarrow>
            (\<exists>e' \<in> set (allEdges st'). edgeKey e' = edgeKey e))"
proof -
  let ?st0 = "st\<lparr>graph_nodes := [], graph_edges := [], nodes := []\<rparr>"
  let ?st1 = "?st0\<lparr>graph_nodes := map id' ns, nodes := map (\<lambda>n. (id' n, n)) ns\<rparr>"
  let ?st' = "loadEdges es ?st1"
  have ln: "loadNodes ns ?st0 = Inr ?st1"
    using loadNodes_distinct [of ns ?st0] assms by simp
  then have l: "load ns es st = Inr ?st'" by (simp add: load_def)
  have n: "allNodes ?st' = ns" by (simp add: allNodes_def comp_def)
  have h: "hasNode ?st' ident \<longleftrightarrow> ident \<in> set (map id' ns)" for ident
    by (simp add: hasNode_def comp_def)
  have gn: "graph_nodes ?st' = map id' ns" by simp
  have ok: "edgesOk ?st'" by (rule loadEdges_ok) (simp add: edgesOk_def)
  have sub: "set (allEdges ?st') \<subseteq> set es"
    using loadEdges_subset [of es ?st1] by (simp add: allEdges_def)
  have ends: "\<forall>e \<in> set (allEdges ?st'). hasNode ?st' (from_node e) \<and> hasNode ?st' (to_node e)"
    using ok unfolding edgesOk_def allEdges_def h gn by fastforce
  have "distinct (map fst (graph_edges ?st'))"
    using ok unfolding edgesOk_def by blast
  then have "distinct (map edgeKey (allEdges ?st'))"
    unfolding edgesOk_keys [OF ok] allEdges_def .
  then have d: "distinct (map (\<lambda>e. (from_node e, to_node e, edge_type e)) (allEdges ?st'))"
    by (rule distinct_key_triples)
  have c: "\<exists>e' \<in> set (allEdges ?st'). edgeKey e' = edgeKey e"
    if "e \<in> set es" "hasNode ?st' (from_node e)" "hasNode ?st' (to_node e)" for e
  proof -
    have "edgeKey e \<in> set (map fst (graph_edges ?st'))"
      using that h by (intro loadEdges_complete) simp_all
    then have "edgeKey e \<in> set (map edgeKey (allEdges ?st'))"
      using edgesOk_keys [OF ok] by (simp add: allEdges_def)
    then show ?thesis by auto
  qed
  show ?thesis using l n h sub ends d c by blast
qed

theorem load_distinct_nodes_witness:
  "distinct (map id' [nodeA, nodeB])
   \<and> (\<exists>st'. load [nodeA, nodeB]
          [mkEdge (str ''Entity:A'') (str ''Event:EVT-B'') (str ''EMITS''),
           mkEdge (str ''Entity:A'') (str ''Event:EVT-B'') (str ''EMITS''),
           mkEdge (str ''Entity:A'') (str ''Event:EVT-C'') (str ''EMITS'')] emptyStore = Inr st'
        \<and> allNodes st' = [nodeA, nodeB]
        \<and> allEdges st' = [mkEdge (str ''Entity:A'') (str ''Event:EVT-B'') (str ''EMITS'')])"
proof -
  have d: "distinct (map id' [nodeA, nodeB])"
    by (simp add: nodeA_def nodeB_def string_eval)
  from load_distinct_nodes [OF d, of
      "[mkEdge (str ''Entity:A'') (str ''Event:EVT-B'') (str ''EMITS''),
           mkEdge (str ''Entity:A'') (str ''Event:EVT-B'') (str ''EMITS''),
           mkEdge (str ''Entity:A'') (str ''Event:EVT-C'') (str ''EMITS'')]" emptyStore]
  obtain st' where "load [nodeA, nodeB]
          [mkEdge (str ''Entity:A'') (str ''Event:EVT-B'') (str ''EMITS''),
           mkEdge (str ''Entity:A'') (str ''Event:EVT-B'') (str ''EMITS''),
           mkEdge (str ''Entity:A'') (str ''Event:EVT-C'') (str ''EMITS'')] emptyStore = Inr st'"
     "allNodes st' = [nodeA, nodeB]" by blast
  moreover have "load [nodeA, nodeB]
          [mkEdge (str ''Entity:A'') (str ''Event:EVT-B'') (str ''EMITS''),
           mkEdge (str ''Entity:A'') (str ''Event:EVT-B'') (str ''EMITS''),
           mkEdge (str ''Entity:A'') (str ''Event:EVT-C'') (str ''EMITS'')] emptyStore
      = Inr \<lparr>graph_nodes = [str ''Entity:A'', str ''Event:EVT-B''],
          graph_edges = [(edgeKey (mkEdge (str ''Entity:A'') (str ''Event:EVT-B'') (str ''EMITS'')),
              mkEdge (str ''Entity:A'') (str ''Event:EVT-B'') (str ''EMITS''))],
          nodes = [(str ''Entity:A'', nodeA), (str ''Event:EVT-B'', nodeB)]\<rparr>"
    by (simp add: load_def emptyStore_def nodeA_def nodeB_def mkEdge_def edgeKey_def string_eval Let_def)
  ultimately show ?thesis using d by (auto simp: allEdges_def)
qed

text \<open>
  Claim C6 as stated, for every list of nodes, fails: when two of the given nodes share
  an ID, \<open>addNode\<close> of the graph library throws and \<open>load\<close> does not complete.
\<close>

theorem load_duplicate_node: "load [nodeA, nodeA] [] emptyStore = Inl (UsageGraphError (id' nodeA))"
  by (simp add: load_def emptyStore_def)

subsection \<open>Coverage percentage\<close>

lemma collectFound_nonempty:
  "collectFound nodeId t es acc \<noteq> [] \<longleftrightarrow> acc \<noteq> [] \<or> (\<exists>e \<in> set es. edge_type e = t)"
  by (induction es arbitrary: acc) (auto simp: Let_def)

lemma coverageLoop_counts:
  assumes "coverageLoop nodeId allE rules (cats0, pres0, miss0) = (cats, pres, miss)"
  shows "pres = pres0 + length (filter (\<lambda>(n, d, t). \<exists>e \<in> set allE. edge_type e = t) rules)
       \<and> miss = miss0 + length (filter (\<lambda>(n, d, t). \<not> (\<exists>e \<in> set allE. edge_type e = t)) rules)"
  using assms
proof (induction rules arbitrary: cats0 pres0 miss0)
  case Nil
  then show ?case by simp
next
  case (Cons rule rules)
  obtain n d t where rule: "rule = (n, d, t)" by (cases rule)
  show ?case
  proof (cases "\<exists>e \<in> set allE. edge_type e = t")
    case True
    then have ne: "collectFound nodeId t allE [] \<noteq> []" by (simp add: collectFound_nonempty)
    let ?c = "\<lparr>name = n, description = d, category_edge_type = t,
                category_status = Covered, found = collectFound nodeId t allE []\<rparr>"
    have "coverageLoop nodeId allE rules (cats0 @ [?c], pres0 + 1, miss0) = (cats, pres, miss)"
      using Cons.prems ne rule by (simp add: Let_def)
    from Cons.IH [OF this] show ?thesis using True rule by simp
  next
    case False
    then have e: "collectFound nodeId t allE [] = []"
      using collectFound_nonempty [of nodeId t allE "[]"] by simp
    let ?c = "\<lparr>name = n, description = d, category_edge_type = t,
                category_status = Missing, found = []\<rparr>"
    have "coverageLoop nodeId allE rules (cats0 @ [?c], pres0, miss0 + 1) = (cats, pres, miss)"
      using Cons.prems e rule by (simp add: Let_def)
    from Cons.IH [OF this] show ?thesis using False rule by simp
  qed
qed

lemma COVERAGE_RULES_nonempty: "COVERAGE_RULES k = Some rules \<Longrightarrow> rules \<noteq> []"
  by (cases k) auto

lemma filter_partition_length:
  "length (filter P xs) + length (filter (\<lambda>x. \<not> P x) xs) = length xs"
  by (induction xs) auto

text \<open>
  Claim C4, as amended. For every node with coverage rules, the \<open>coveragePercent\<close> of the
  coverage query equals \<open>round(1000 \<cdot> present / (present + missing)) / 10\<close>, where
  \<open>present\<close> is the number of rules whose edge type occurs among the edges at the node
  and \<open>missing\<close> is the number of the others; the two add up to the number of rules,
  which is positive.
\<close>

theorem coveragePercent_formula:
  assumes "coverageQuery nodeId graphStore = Inr r"
  shows "(\<exists>node rules. getNode graphStore nodeId = Some node
            \<and> COVERAGE_RULES (kind node) = Some rules
            \<and> present r = length (filter (\<lambda>(n, d, t).
                  \<exists>e \<in> set (incomingEdges graphStore nodeId @ outgoingEdges graphStore nodeId).
                    edge_type e = t) rules)
            \<and> missing r = length (filter (\<lambda>(n, d, t).
                  \<not> (\<exists>e \<in> set (incomingEdges graphStore nodeId @ outgoingEdges graphStore nodeId).
                    edge_type e = t)) rules))
       \<and> 0 < present r + missing r
       \<and> coveragePercent r
           = Math_round (1000 * real (present r) / real (present r + missing r)) / 10"
proof -
  from assms have has: "hasNode graphStore nodeId"
    by (auto simp: coverageQuery_def split: if_splits)
  from assms obtain node where node: "getNode graphStore nodeId = Some node"
    by (auto simp: coverageQuery_def split: if_splits option.splits)
  from assms node obtain rules where rules: "COVERAGE_RULES (kind node) = Some rules"
    by (auto simp: coverageQuery_def split: if_splits option.splits)
  let ?allE = "incomingEdges graphStore nodeId @ outgoingEdges graphStore nodeId"
  obtain cats pres miss where loop: "coverageLoop nodeId ?allE rules ([], 0, 0) = (cats, pres, miss)"
    by (cases "coverageLoop nodeId ?allE rules ([], 0, 0)") auto
  have r: "r = \<lparr>analyzedNode = Some node, categories = cats, present = pres, missing = miss,
     coveragePercent = (if pres + miss > 0
                              then Math_round ((real pres / real (pres + miss)) * 1000) / 10
                              else 0)\<rparr>"
    using assms has node rules loop by (simp add: coverageQuery_def Let_def)
  from coverageLoop_counts [OF loop]
  have counts: "pres = length (filter (\<lambda>(n, d, t). \<exists>e \<in> set ?allE. edge_type e = t) rules)"
    "miss = length (filter (\<lambda>(n, d, t). \<not> (\<exists>e \<in> set ?allE. edge_type e = t)) rules)"
    by simp_all
  have "pres + miss = length rules"
    unfolding counts
    using filter_partition_length [of "\<lambda>(n, d, t). \<exists>e \<in> set ?allE. edge_type e = t" rules]
    by (simp add: case_prod_unfold)
  then have pos: "0 < pres + miss"
    using COVERAGE_RULES_nonempty [OF rules] by simp
  have "coveragePercent r = Math_round (1000 * real pres / real (pres + miss)) / 10"
    using pos r by (simp add: mult.commute)
  then show ?thesis using node rules counts pos r by simp
qed

theorem coveragePercent_formula_witness:
  "coveragePercent (projr (coverageQuery (str ''Entity:A'') storeAB)) = 333 / 10"
proof -
  have q: "coverageQuery (str ''Entity:A'') storeAB = Inr (projr (coverageQuery (str ''Entity:A'') storeAB))"
    by (simp add: coverageQuery_def storeAB_def hasNode_def getNode_def nodeA_def nodeB_def
      mkEdge_def incomingEdges_def outgoingEdges_def inEdges_def outEdges_def adjacency_eval Let_def
      Math_round_def string_eval)
  have p: "present (projr (coverageQuery (str ''Entity:A'') storeAB)) = 1"
     "missing (projr (coverageQuery (str ''Entity:A'') storeAB)) = 2"
    by (simp_all add: coverageQuery_def storeAB_def hasNode_def getNode_def nodeA_def nodeB_def
      mkEdge_def incomingEdges_def outgoingEdges_def inEdges_def outEdges_def adjacency_eval Let_def
      Math_round_def string_eval)
  from coveragePercent_formula [OF q] show ?thesis
    unfolding p by (simp add: Math_round_def)
qed

text \<open>
  Claim C4 as stated, with \<open>round(10 \<cdot> present / (present + missing)) / 10\<close>, fails:
  for an entity with one \<open>EMITS\<close> edge and no other edge the code returns one category of
  three as present and 33.3 percent, where the stated formula gives 0.3.
\<close>

theorem coveragePercent_spec_formula_fails:
  "coverageQuery (str ''Entity:A'') storeAB
     = Inr \<lparr>analyzedNode = Some nodeA,
         categories =
           [\<lparr>name = str ''events'', description = str ''Domain events emitted by this entity'',
              category_edge_type = str ''EMITS'', category_status = Covered,
              found = [str ''Event:EVT-B'']\<rparr>,
            \<lparr>name = str ''business_rules'', description = str ''Business rules for this entity'',
              category_edge_type = str ''ENTITY_RULE'', category_status = Missing, found = []\<rparr>,
            \<lparr>name = str ''use_cases'', description = str ''Use cases involving this entity'',
              category_edge_type = str ''WIKI_LINK'', category_status = Missing, found = []\<rparr>],
         present = 1, missing = 2, coveragePercent = 333 / 10\<rparr>
   \<and> (333 / 10 :: real) \<noteq> Math_round (10 * real 1 / real (1 + 2)) / 10"
  by (simp add: coverageQuery_def storeAB_def hasNode_def getNode_def nodeA_def nodeB_def
      mkEdge_def incomingEdges_def outgoingEdges_def inEdges_def outEdges_def adjacency_eval Let_def
      Math_round_def string_eval)

subsection \<open>Rounding to doubles\<close>

lemma bitLength_bounds: "0 < n \<Longrightarrow> 2 ^ (bitLength n - 1) \<le> n \<and> n < 2 ^ bitLength n"
proof (induction n rule: bitLength.induct)
  case (1 n)
  show ?case
  proof (cases "n = 1")
    case True
    then show ?thesis by (simp add: bitLength.simps [of 1] bitLength.simps [of 0])
  next
    case False
    with 1 have h: "0 < n div 2" by simp
    from 1 h have IH: "2 ^ (bitLength (n div 2) - 1) \<le> n div 2" "n div 2 < 2 ^ bitLength (n div 2)"
      by simp_all
    have b: "bitLength n = Suc (bitLength (n div 2))" using 1(2) by (simp add: bitLength.simps [of n])
    have pos: "0 < bitLength (n div 2)" using h by (simp add: bitLength.simps [of "n div 2"])
    have "(2::int) ^ (bitLength n - 1) = 2 * 2 ^ (bitLength (n div 2) - 1)"
      using b pos by (cases "bitLength (n div 2)") simp_all
    also have "\<dots> \<le> 2 * (n div 2)" using IH(1) by simp
    also have "\<dots> \<le> n" by simp
    finally have lo: "2 ^ (bitLength n - 1) \<le> n" .
    have "n < 2 * (n div 2) + 2" by simp
    also have "\<dots> \<le> 2 * 2 ^ bitLength (n div 2)" using IH(2) by simp
    finally have "n < 2 ^ bitLength n" using b by simp
    with lo show ?thesis by simp
  qed
qed

lemma bitLength_le: "n < 2 ^ j \<Longrightarrow> bitLength n \<le> j"
proof (cases "0 < n")
  case True
  assume "n < 2 ^ j"
  moreover from bitLength_bounds [OF True] have "(2::int) ^ (bitLength n - 1) \<le> n" by blast
  ultimately have "(2::int) ^ (bitLength n - 1) < 2 ^ j" by linarith
  then have "bitLength n - 1 < j" by (simp add: power_strict_increasing_iff)
  then show ?thesis by simp
next
  case False
  then show ?thesis by (simp add: bitLength.simps [of n])
qed

lemma roundEven_of_int [simp]: "roundEven (of_int n) = n"
  by (simp add: roundEven_def)

lemma roundEven_nonpos: "q \<le> 0 \<Longrightarrow> roundEven q \<le> 0"
proof -
  assume q: "q \<le> 0"
  then have f: "\<lfloor>q\<rfloor> \<le> 0" by (simp add: floor_le_iff)
  show ?thesis
  proof (cases "\<lfloor>q\<rfloor> = 0")
    case True
    then have "0 \<le> q" by (metis of_int_0 of_int_floor_le)
    with q have "q = 0" by simp
    then show ?thesis by (simp add: roundEven_def)
  next
    case False
    with f have "\<lfloor>q\<rfloor> + 1 \<le> 0" by linarith
    then show ?thesis using f by (simp add: roundEven_def Let_def)
  qed
qed

lemma roundEven_pos: "1 \<le> q \<Longrightarrow> 1 \<le> roundEven q"
proof -
  assume "1 \<le> q"
  then have "1 \<le> \<lfloor>q\<rfloor>" by simp
  then show ?thesis by (simp add: roundEven_def Let_def)
qed

lemma roundEven_small:
  assumes "\<bar>q\<bar> < 1 / 2"
  shows "roundEven q = 0"
proof (cases "0 \<le> q")
  case True
  then have "\<lfloor>q\<rfloor> = 0" using assms by (simp add: floor_eq_iff)
  then show ?thesis using assms True by (simp add: roundEven_def)
next
  case False
  then have "\<lfloor>q\<rfloor> = - 1" using assms by (simp add: floor_eq_iff)
  then show ?thesis using assms False by (simp add: roundEven_def)
qed

lemma quantum_ge: "quantumMin \<le> quantum x"
  by (simp add: quantum_def)

lemma quantum_le:
  assumes "2 powi quantumMin \<le> \<bar>x\<bar>"
  shows "2 powi (quantum x) \<le> \<bar>x\<bar>"
proof (cases "quantum x = quantumMin")
  case True
  then show ?thesis using assms by simp
next
  case False
  let ?N = "\<lfloor>\<bar>x\<bar> * 2 powi (- quantumMin)\<rfloor>"
  from False have q: "quantum x = int (bitLength ?N) + quantumMin - 53" and big: "53 < bitLength ?N"
    by (auto simp: quantum_def max_def split: if_splits)
  then have "0 < ?N" by (cases "0 < ?N") (simp_all add: bitLength.simps [of ?N])
  from bitLength_bounds [OF this] have "2 ^ (bitLength ?N - 1) \<le> ?N" by simp
  then have "(2::real) ^ (bitLength ?N - 1) \<le> of_int ?N"
    by (metis of_int_le_iff of_int_numeral of_int_power)
  also have "\<dots> \<le> \<bar>x\<bar> * 2 powi (- quantumMin)" by simp
  finally have "(2::real) ^ (bitLength ?N - 1) * 2 powi quantumMin \<le> \<bar>x\<bar>"
    by (simp add: power_int_minus field_simps)
  moreover have "(2::real) powi (quantum x) \<le> 2 ^ (bitLength ?N - 1) * 2 powi quantumMin"
  proof -
    have "(2::real) ^ (bitLength ?N - 1) * 2 powi quantumMin
        = 2 powi (int (bitLength ?N - 1) + quantumMin)"
      by (simp add: power_int_add)
    moreover have "quantum x \<le> int (bitLength ?N - 1) + quantumMin" using q big by simp
    ultimately show ?thesis by (simp add: power_int_increasing)
  qed
  ultimately show ?thesis by simp
qed

lemma rnd_not_NaN [simp]: "rnd x \<noteq> NaN"
  by (simp add: rnd_def Let_def)

lemma overflowBound_pos: "0 < overflowBound"
  by (simp add: overflowBound_def)

lemma rnd_positive:
  assumes "2 powi quantumMin \<le> x"
  shows "jsgt (rnd x) (Fin 0)"
proof -
  have "(0::real) < 2 powi quantumMin" by simp
  with assms have x: "0 < x" by linarith
  then have "2 powi (quantum x) \<le> x" using quantum_le [of x] assms by simp
  then have "1 \<le> x / 2 powi (quantum x)" by (simp add: field_simps)
  then have "1 \<le> roundEven (x / 2 powi (quantum x))" by (rule roundEven_pos)
  then have "0 < (of_int (roundEven (x / 2 powi (quantum x))) :: real) * 2 powi (quantum x)"
    by simp
  then show ?thesis using overflowBound_pos by (simp add: rnd_def Let_def jsgt_def)
qed

lemma rnd_nonpositive:
  assumes "x \<le> 0"
  shows "\<not> jsgt (rnd x) (Fin 0)"
proof -
  have "x / 2 powi (quantum x) \<le> 0" using assms by (simp add: divide_le_0_iff)
  then have "roundEven (x / 2 powi (quantum x)) \<le> 0" by (rule roundEven_nonpos)
  then have "(of_int (roundEven (x / 2 powi (quantum x))) :: real) * 2 powi (quantum x) \<le> 0"
    by (simp add: mult_le_0_iff)
  then show ?thesis using overflowBound_pos by (auto simp: rnd_def Let_def jsgt_def)
qed

lemma rnd_grid: "rnd x = Fin y \<Longrightarrow> y * 2 powi (- quantumMin) \<in> \<int>"
proof -
  assume "rnd x = Fin y"
  then have y: "y = of_int (roundEven (x / 2 powi (quantum x))) * 2 powi (quantum x)"
    by (simp add: rnd_def Let_def split: if_splits)
  have "(2::real) powi (quantum x) * 2 powi (- quantumMin) = 2 powi (quantum x - quantumMin)"
    by (simp add: power_int_diff power_int_minus divide_inverse)
  also have "\<dots> = 2 ^ nat (quantum x - quantumMin)"
    using quantum_ge [of x] by (simp add: power_int_def)
  finally have "y * 2 powi (- quantumMin)
      = of_int (roundEven (x / 2 powi (quantum x)) * 2 ^ nat (quantum x - quantumMin))"
    using y by simp
  then show ?thesis by (metis Ints_of_int)
qed

lemma rnd_double:
  assumes "\<bar>m\<bar> < 2 ^ 53" "quantumMin \<le> e" "\<bar>of_int m * 2 powi e\<bar> < overflowBound"
  shows "rnd (of_int m * 2 powi e) = Fin (of_int m * 2 powi e)"
proof -
  let ?x = "of_int m * 2 powi e :: real"
  let ?N = "\<lfloor>\<bar>?x\<bar> * 2 powi (- quantumMin)\<rfloor>"
  have "\<bar>?x\<bar> * 2 powi (- quantumMin) = of_int \<bar>m\<bar> * 2 powi (e - quantumMin)"
    by (simp add: abs_mult power_int_diff power_int_minus divide_inverse)
  also have "\<dots> = of_int (\<bar>m\<bar> * 2 ^ nat (e - quantumMin))"
    using assms(2) by (simp add: power_int_def)
  finally have N: "?N = \<bar>m\<bar> * 2 ^ nat (e - quantumMin)" by (metis floor_of_int)
  have "?N < 2 ^ 53 * 2 ^ nat (e - quantumMin)" unfolding N using assms(1) by simp
  then have "?N < 2 ^ (53 + nat (e - quantumMin))" by (simp add: power_add)
  then have "bitLength ?N \<le> 53 + nat (e - quantumMin)" by (rule bitLength_le)
  then have q: "quantum ?x \<le> e" using assms(2) by (simp add: quantum_def)
  define qx where "qx = quantum ?x"
  define d where "d = nat (e - qx)"
  have "(2::real) powi qx * 2 ^ d = 2 powi qx * 2 powi (int d)"
    by simp
  also have "\<dots> = 2 powi (qx + int d)" by (simp add: power_int_add)
  also have "\<dots> = 2 powi e" using q by (simp add: d_def qx_def)
  finally have p: "(2::real) powi e = 2 powi qx * 2 ^ d" by simp
  have quot: "of_int m * 2 powi e / 2 powi qx = (of_int (m * 2 ^ d) :: real)"
    by (simp add: p)
  have "of_int (roundEven (of_int m * 2 powi e / 2 powi qx)) * 2 powi qx
      = (of_int m * 2 powi e :: real)"
    unfolding quot roundEven_of_int by (simp add: p)
  then show ?thesis using assms(3) by (simp add: rnd_def Let_def abs_less_iff flip: qx_def)
qed

lemma rnd_int: "\<bar>m\<bar> < 2 ^ 53 \<Longrightarrow> rnd (of_int m) = Fin (of_int m)"
proof -
  assume m: "\<bar>m\<bar> < 2 ^ 53"
  then have "\<bar>real_of_int m\<bar> < 2 ^ 53"
    by (metis of_int_abs of_int_less_iff of_int_numeral of_int_power)
  also have "\<dots> < overflowBound" by (simp add: overflowBound_def)
  finally show ?thesis using rnd_double [of m 0] m by (simp add: quantumMin_def)
qed

lemma rnd_0 [simp]: "rnd 0 = Fin 0"
  using rnd_int [of 0] by simp

lemma rnd_1 [simp]: "rnd 1 = Fin 1"
  using rnd_int [of 1] by simp

lemma rnd_underflow:
  assumes "\<bar>x\<bar> * 2 powi (- quantumMin) < 1 / 2"
  shows "rnd x = Fin 0"
proof -
  have "0 \<le> \<bar>x\<bar> * 2 powi (- quantumMin)" by simp
  with assms have "\<lfloor>\<bar>x\<bar> * 2 powi (- quantumMin)\<rfloor> = 0" by (simp add: floor_eq_iff)
  then have q: "quantum x = quantumMin" by (simp add: quantum_def bitLength.simps [of 0])
  have e: "x / 2 powi quantumMin = x * 2 powi (- quantumMin)"
    by (simp add: power_int_minus field_simps)
  have "\<bar>x * 2 powi (- quantumMin)\<bar> < 1 / 2" using assms by (simp add: abs_mult)
  then have "roundEven (x * 2 powi (- quantumMin)) = 0" by (rule roundEven_small)
  then show ?thesis using overflowBound_pos by (simp add: rnd_def q e)
qed

subsection \<open>Vector search\<close>

lemma jsge_trans: "jsge a b \<Longrightarrow> jsge b c \<Longrightarrow> jsge a c"
  by (cases a; cases b; cases c) (auto simp: jsge_def)

lemma jslt_jsge: "jslt a b \<Longrightarrow> jsge b a"
  by (cases a; cases b) (auto simp: jsge_def)

text \<open>
  The rounded difference of two doubles has the sign of the exact one: the doubles are
  multiples of the smallest positive double, so a difference that is not zero does not
  round to zero.
\<close>

lemma rnd_difference_positive:
  assumes "x * 2 powi (- quantumMin) \<in> \<int>" "y * 2 powi (- quantumMin) \<in> \<int>"
  shows "jsgt (rnd (y - x)) (Fin 0) \<longleftrightarrow> x < y"
proof (cases "x < y")
  case True
  from assms obtain i j :: int where i: "x * 2 powi (- quantumMin) = of_int i"
    and j: "y * 2 powi (- quantumMin) = of_int j"
    by (auto elim!: Ints_cases)
  have p: "(0::real) < 2 powi (- quantumMin)" by simp
  from True have "x * 2 powi (- quantumMin) < y * 2 powi (- quantumMin)"
    using p by (simp only: mult_less_cancel_right_pos)
  then have "i < j" unfolding i j by simp
  then have "1 \<le> j - i" by simp
  then have "(1::real) \<le> of_int (j - i)" by (metis of_int_1_le_iff)
  also have "\<dots> = (y - x) * 2 powi (- quantumMin)"
    using i j by (simp add: algebra_simps)
  finally have "1 / 2 powi (- quantumMin) \<le> y - x"
    using p by (simp add: pos_divide_le_eq)
  moreover have "1 / (2::real) powi (- quantumMin) = 2 powi quantumMin"
    by (simp add: power_int_minus field_simps)
  ultimately have "2 powi quantumMin \<le> y - x" by simp
  then show ?thesis using True by (simp add: rnd_positive)
next
  case False
  then have "y - x \<le> 0" by simp
  then show ?thesis using False by (simp add: rnd_nonpositive)
qed

lemma cmp_desc_rounded:
  assumes "a \<noteq> NaN" "b \<noteq> NaN"
    "\<forall>x. a = Fin x \<longrightarrow> x * 2 powi (- quantumMin) \<in> \<int>"
    "\<forall>y. b = Fin y \<longrightarrow> y * 2 powi (- quantumMin) \<in> \<int>"
  shows "jsgt (dsub b a) (Fin 0) \<longleftrightarrow> jslt a b"
proof (cases a)
  case (Fin x)
  note a = this
  show ?thesis
  proof (cases b)
    case (Fin y)
    with a assms(3,4) show ?thesis
      by (simp add: dsub_def jssub_def rnd_difference_positive)
  qed (use a assms in \<open>auto simp: dsub_def jssub_def jsgt_def\<close>)
qed (use assms in \<open>cases b; auto simp: dsub_def jssub_def jsgt_def\<close>)+

lemma rounded_grid: "rounded a = Fin y \<Longrightarrow> a \<noteq> NaN \<and> y * 2 powi (- quantumMin) \<in> \<int>"
  by (cases a) (auto dest: rnd_grid)

lemma set_insertBy [simp]: "set (insertBy cmp x ys) = insert x (set ys)"
  by (induction ys) auto

lemma set_sortBy [simp]: "set (sortBy cmp xs) = set xs"
  by (induction xs) (auto simp: sortBy_def)

lemma length_insertBy [simp]: "length (insertBy cmp x ys) = Suc (length ys)"
  by (induction ys) auto

lemma length_sortBy [simp]: "length (sortBy cmp xs) = length xs"
  by (induction xs) (auto simp: sortBy_def)

text \<open>
  Insertion with a comparator that is positive exactly where the first key is below the
  second keeps a list in descending order of the keys.
\<close>

lemma sorted_insertBy_desc:
  assumes "sorted_wrt (\<lambda>a b. jsge (f a) (f b)) ys" "f x \<noteq> NaN" "\<forall>y \<in> set ys. f y \<noteq> NaN"
    "\<forall>y \<in> set ys. jsgt (cmp x y) (Fin 0) \<longleftrightarrow> jslt (f x) (f y)"
  shows "sorted_wrt (\<lambda>a b. jsge (f a) (f b)) (insertBy cmp x ys)"
  using assms
proof (induction ys)
  case Nil
  then show ?case by simp
next
  case (Cons y ys)
  show ?case
  proof (cases "jslt (f x) (f y)")
    case True
    then have "jsge (f y) (f x)" by (rule jslt_jsge)
    then show ?thesis using Cons True by auto
  next
    case False
    then have xy: "jsge (f x) (f y)" using Cons.prems by (simp add: jsge_def)
    then have "\<forall>z \<in> set ys. jsge (f x) (f z)"
      using Cons.prems(1) by (auto intro: jsge_trans)
    then show ?thesis using Cons.prems False xy by simp
  qed
qed

lemma sorted_sortBy_desc:
  assumes "\<forall>y \<in> set xs. f y \<noteq> NaN"
    "\<forall>x \<in> set xs. \<forall>y \<in> set xs. jsgt (cmp x y) (Fin 0) \<longleftrightarrow> jslt (f x) (f y)"
  shows "sorted_wrt (\<lambda>a b. jsge (f a) (f b)) (sortBy cmp xs)"
  using assms
proof (induction xs)
  case Nil
  then show ?case by (simp add: sortBy_def)
next
  case (Cons x xs)
  have "sorted_wrt (\<lambda>a b. jsge (f a) (f b)) (insertBy cmp x (sortBy cmp xs))"
    using Cons by (intro sorted_insertBy_desc) auto
  then show ?case by (simp add: sortBy_def)
qed

lemma sorted_wrt_take: "sorted_wrt P xs \<Longrightarrow> sorted_wrt P (take n xs)"
  by (metis append_take_drop_id sorted_wrt_append)

lemma sorted_wrt_slice0: "sorted_wrt P xs \<Longrightarrow> sorted_wrt P (slice0 xs n)"
  by (simp add: slice0_def sorted_wrt_take)

lemma set_slice0: "set (slice0 xs n) \<subseteq> set xs"
  by (auto simp: slice0_def dest: in_set_takeD)

lemma sorted_wrt_take_drop:
  assumes "sorted_wrt P xs" "x \<in> set (take n xs)" "y \<in> set (drop n xs)"
  shows "P x y"
proof -
  have "sorted_wrt P (take n xs @ drop n xs)" using assms(1) by simp
  then show ?thesis using assms(2,3) unfolding sorted_wrt_append by blast
qed

lemma scoreLoop_eq:
  "scoreLoop qv qNorm minScore es scored =
     scored @ map (\<lambda>(ident, v). (ident, similarity qv qNorm v))
                (filter (\<lambda>(ident, v). jsge (similarity qv qNorm v) minScore) es)"
  by (induction es arbitrary: scored) (auto simp: Let_def)

lemma similarity_grid:
  "similarity qv qNorm v = Fin y \<Longrightarrow> y * 2 powi (- quantumMin) \<in> \<int>"
  unfolding similarity_def ddiv_def by (drule rounded_grid) simp

lemma scored_sorted:
  "sorted_wrt (\<lambda>a b. jsge (snd a) (snd b))
     (sortBy (\<lambda>a b. dsub (snd b) (snd a)) (scoreLoop qv qNorm minScore es []))"
proof (rule sorted_sortBy_desc)
  let ?scored = "scoreLoop qv qNorm minScore es []"
  show n: "\<forall>p \<in> set ?scored. snd p \<noteq> NaN"
    by (auto simp: scoreLoop_eq jsge_def)
  have g: "\<forall>p \<in> set ?scored. \<forall>y. snd p = Fin y \<longrightarrow> y * 2 powi (- quantumMin) \<in> \<int>"
    by (auto simp: scoreLoop_eq dest: similarity_grid)
  show "\<forall>x \<in> set ?scored. \<forall>y \<in> set ?scored.
      jsgt (dsub (snd y) (snd x)) (Fin 0) \<longleftrightarrow> jslt (snd x) (snd y)"
    using n g by (intro ballI cmp_desc_rounded) blast+
qed

text \<open>The sums over a vector whose components are all zero.\<close>

lemma normLoop_zero_vector: "\<forall>x \<in> set v. x = Fin 0 \<Longrightarrow> normLoop (Fin 0) v = Fin 0"
  by (induction v) (simp_all add: dadd_def dmul_def)

lemma norm_zero_vector: "\<forall>x \<in> set v. x = Fin 0 \<Longrightarrow> norm' v = Fin 0"
  by (simp add: norm'_def normLoop_zero_vector)

lemma dmul_zero: "dmul a (Fin 0) = Fin 0 \<or> dmul a (Fin 0) = NaN"
  by (cases a) (simp_all add: dmul_def)

lemma dotLoop_zero_vector:
  "\<forall>y \<in> set v. y = Fin 0 \<Longrightarrow> s = Fin 0 \<or> s = NaN \<Longrightarrow>
     dotLoop s qv v = Fin 0 \<or> dotLoop s qv v = NaN"
proof (induction s qv v rule: dotLoop.induct)
  case (1 s b)
  then show ?case by simp
next
  case (2 s x xs)
  have "dadd s NaN = NaN" by (cases s) (simp_all add: dadd_def)
  then show ?case using 2 by simp
next
  case (3 s x xs y ys)
  from 3(2) have y: "y = Fin 0" by simp
  have "dadd s (dmul x y) = Fin 0 \<or> dadd s (dmul x y) = NaN"
    using 3(3) dmul_zero [of x] unfolding y by (auto simp: dadd_def)
  then show ?case using 3 by simp
qed

lemma similarity_zero_vector:
  assumes "\<forall>y \<in> set v. y = Fin 0"
  shows "similarity qv qNorm v = NaN"
proof -
  have d: "dot qv v = Fin 0 \<or> dot qv v = NaN"
    unfolding dot_def using assms by (intro dotLoop_zero_vector) simp_all
  have "dmul qNorm (norm' v) = Fin 0 \<or> dmul qNorm (norm' v) = NaN"
    using dmul_zero [of qNorm] by (simp add: norm_zero_vector [OF assms])
  with d show ?thesis by (auto simp: similarity_def ddiv_def)
qed

lemma search_top:
  assumes "norm' queryVector \<noteq> Fin 0" "0 \<le> limit" "(ident, v) \<in> set (entries vs)"
    "jsge (similarity queryVector (norm' queryVector) v) minScore"
  shows "(ident, similarity queryVector (norm' queryVector) v)
           \<in> set (search vs queryVector limit minScore)
       \<or> (\<forall>(j, s) \<in> set (search vs queryVector limit minScore).
             jsge s (similarity queryVector (norm' queryVector) v))"
proof -
  let ?scored = "scoreLoop queryVector (norm' queryVector) minScore (entries vs) []"
  let ?sorted = "sortBy (\<lambda>a b. dsub (snd b) (snd a)) ?scored"
  let ?p = "(ident, similarity queryVector (norm' queryVector) v)"
  have s: "search vs queryVector limit minScore = take (nat limit) ?sorted"
    using assms(1,2,3) by (auto simp: search_def slice0_def Let_def)
  have "?p \<in> set ?scored" using assms(3,4) by (force simp: scoreLoop_eq)
  then have "?p \<in> set (take (nat limit) ?sorted @ drop (nat limit) ?sorted)" by simp
  then have c: "?p \<in> set (take (nat limit) ?sorted) \<or> ?p \<in> set (drop (nat limit) ?sorted)"
    by (simp only: set_append Un_iff)
  have srt: "sorted_wrt (\<lambda>a b. jsge (snd a) (snd b)) ?sorted"
    by (rule scored_sorted)
  show ?thesis
  proof (cases "?p \<in> set (take (nat limit) ?sorted)")
    case True
    then show ?thesis using s by simp
  next
    case False
    then have d: "?p \<in> set (drop (nat limit) ?sorted)" using c by blast
    have "jsge (snd x) (snd ?p)" if "x \<in> set (take (nat limit) ?sorted)" for x
      using sorted_wrt_take_drop [OF srt that d] .
    then show ?thesis unfolding s by auto
  qed
qed

text \<open>
  Claim C3, as amended. For every vector store and every query vector: if the norm that
  \<open>search\<close> computes for the query vector is zero, as it is when all components of the
  query are zero, \<open>search\<close> returns no results; every returned pair belongs to a stored
  vector that has a component other than zero (the similarity of a stored vector of
  zeros is \<open>NaN\<close>, and that vector alone is left out), and its similarity is not \<open>NaN\<close>
  and not below \<open>minScore\<close>; for a limit that is not negative at most \<open>limit\<close> results
  are returned, namely that many of the qualifying vectors or all of them, and a
  qualifying vector that is left out scores no higher than any returned one; and the
  results are sorted by score, descending. All sums, products, quotients and square roots
  are the rounded ones of the doubles.
\<close>

theorem search_properties:
  "(norm' queryVector = Fin 0 \<longrightarrow> search vs queryVector limit minScore = [])
   \<and> ((\<forall>x \<in> set queryVector. x = Fin 0) \<longrightarrow> search vs queryVector limit minScore = [])
   \<and> (\<forall>(ident, sim) \<in> set (search vs queryVector limit minScore).
        sim \<noteq> NaN \<and> jsge sim minScore
        \<and> (\<exists>v. (ident, v) \<in> set (entries vs) \<and> (\<exists>x \<in> set v. x \<noteq> Fin 0)
               \<and> sim = similarity queryVector (norm' queryVector) v))
   \<and> (0 \<le> limit \<longrightarrow> length (search vs queryVector limit minScore) \<le> nat limit)
   \<and> (norm' queryVector \<noteq> Fin 0 \<and> 0 \<le> limit \<longrightarrow>
        length (search vs queryVector limit minScore)
          = min (nat limit)
              (length (filter (\<lambda>(ident, v).
                  jsge (similarity queryVector (norm' queryVector) v) minScore) (entries vs))))
   \<and> (norm' queryVector \<noteq> Fin 0 \<and> 0 \<le> limit \<longrightarrow>
        (\<forall>(ident, v) \<in> set (entries vs).
           jsge (similarity queryVector (norm' queryVector) v) minScore \<longrightarrow>
             (ident, similarity queryVector (norm' queryVector) v)
               \<in> set (search vs queryVector limit minScore)
             \<or> (\<forall>(j, s) \<in> set (search vs queryVector limit minScore).
                   jsge s (similarity queryVector (norm' queryVector) v))))
   \<and> sorted_wrt (\<lambda>a b. jsge (snd a) (snd b)) (search vs queryVector limit minScore)"
proof (intro conjI)
  show "norm' queryVector \<noteq> Fin 0 \<and> 0 \<le> limit \<longrightarrow>
        (\<forall>(ident, v) \<in> set (entries vs).
           jsge (similarity queryVector (norm' queryVector) v) minScore \<longrightarrow>
             (ident, similarity queryVector (norm' queryVector) v)
               \<in> set (search vs queryVector limit minScore)
             \<or> (\<forall>(j, s) \<in> set (search vs queryVector limit minScore).
                   jsge s (similarity queryVector (norm' queryVector) v)))"
    using search_top [of queryVector limit _ _ vs minScore] by blast
next
  show "norm' queryVector = Fin 0 \<longrightarrow> search vs queryVector limit minScore = []"
    by (simp add: search_def)
next
  show "(\<forall>x \<in> set queryVector. x = Fin 0) \<longrightarrow> search vs queryVector limit minScore = []"
    by (simp add: search_def norm_zero_vector)
next
  let ?scored = "scoreLoop queryVector (norm' queryVector) minScore (entries vs) []"
  have sub: "set (search vs queryVector limit minScore) \<subseteq> set ?scored"
    using set_slice0 [of "sortBy (\<lambda>a b. dsub (snd b) (snd a)) ?scored" limit]
    by (auto simp: search_def Let_def)
  have "sim \<noteq> NaN \<and> jsge sim minScore
        \<and> (\<exists>v. (ident, v) \<in> set (entries vs) \<and> (\<exists>x \<in> set v. x \<noteq> Fin 0)
               \<and> sim = similarity queryVector (norm' queryVector) v)"
    if "(ident, sim) \<in> set ?scored" for ident sim
  proof -
    from that obtain v where v: "(ident, v) \<in> set (entries vs)"
      "sim = similarity queryVector (norm' queryVector) v" "jsge sim minScore"
      by (auto simp: scoreLoop_eq)
    then have "sim \<noteq> NaN" by (auto simp: jsge_def)
    then have "\<exists>x \<in> set v. x \<noteq> Fin 0" using v(2) similarity_zero_vector by blast
    then show ?thesis using v \<open>sim \<noteq> NaN\<close> by blast
  qed
  then show "\<forall>(ident, sim) \<in> set (search vs queryVector limit minScore).
        sim \<noteq> NaN \<and> jsge sim minScore
        \<and> (\<exists>v. (ident, v) \<in> set (entries vs) \<and> (\<exists>x \<in> set v. x \<noteq> Fin 0)
               \<and> sim = similarity queryVector (norm' queryVector) v)"
    using sub by blast
next
  show "0 \<le> limit \<longrightarrow> length (search vs queryVector limit minScore) \<le> nat limit"
    by (simp add: search_def slice0_def Let_def)
next
  show "norm' queryVector \<noteq> Fin 0 \<and> 0 \<le> limit \<longrightarrow>
        length (search vs queryVector limit minScore)
          = min (nat limit)
              (length (filter (\<lambda>(ident, v).
                  jsge (similarity queryVector (norm' queryVector) v) minScore) (entries vs)))"
    by (auto simp: search_def slice0_def Let_def scoreLoop_eq)
next
  show "sorted_wrt (\<lambda>a b. jsge (snd a) (snd b)) (search vs queryVector limit minScore)"
    by (simp add: search_def Let_def sorted_wrt_slice0 scored_sorted)
qed

text \<open>Evaluation of \<open>search\<close> on the example stores.\<close>

lemma tiny_pos: "0 < tiny"
  by (simp add: tiny_def)

lemma rnd_tiny: "rnd tiny = Fin tiny"
proof -
  have "tiny < 2 powi 0" unfolding tiny_def by (rule power_int_strict_increasing) simp_all
  then have "\<bar>tiny\<bar> < 1" using tiny_pos by simp
  also have "\<dots> < overflowBound" by (simp add: overflowBound_def)
  finally show ?thesis
    using rnd_double [of 1 "- 600"] by (simp add: quantumMin_def tiny_def)
qed

lemma rnd_tiny_square: "rnd (tiny * tiny) = Fin 0"
proof (rule rnd_underflow)
  have a: "tiny * tiny = 2 powi (- 1200)"
    unfolding tiny_def using power_int_add [of "2::real" "- 600" "- 600"] by simp
  have b: "(2::real) powi (- 1200) * 2 powi 1074 = 2 powi (- 126)"
    using power_int_add [of "2::real" "- 1200" 1074] by simp
  have "\<bar>tiny * tiny\<bar> = tiny * tiny" by simp
  then have "\<bar>tiny * tiny\<bar> * 2 powi (- quantumMin) = 2 powi (- 126)"
    unfolding a using b by (simp add: quantumMin_def)
  also have "\<dots> < 2 powi (- 1)" by (rule power_int_strict_increasing) simp_all
  also have "\<dots> = 1 / 2" by (simp add: power_int_minus)
  finally show "\<bar>tiny * tiny\<bar> * 2 powi (- quantumMin) < 1 / 2" .
qed

lemmas search_eval =
  search_def norm'_def similarity_def dot_def dadd_def dsub_def dmul_def ddiv_def Let_def
  jsge_def sortBy_def jssub_def jsgt_def slice0_def

lemma search_vstore2: "search vstore2 [Fin 1] 10 (Fin 0) = [(str ''b:chunk-0'', Fin 1)]"
  by (simp add: search_eval vstore2_def)

theorem search_properties_witness:
  "norm' [Fin 0] = Fin 0 \<and> search vstore2 [Fin 0] 10 (Fin 0) = []
   \<and> (str ''b:chunk-0'', Fin 1) \<in> set (search vstore2 [Fin 1] 10 (Fin 0))
   \<and> jsge (Fin 1) (Fin 0)
   \<and> norm' [Fin 1] \<noteq> Fin 0 \<and> (0 :: int) \<le> 10
   \<and> length (search vstore2 [Fin 1] 10 (Fin 0)) = 1"
proof -
  note s = search_vstore2
  have z: "norm' [Fin 0] = Fin 0" and o: "norm' [Fin 1] \<noteq> Fin 0"
    by (simp_all add: norm'_def dadd_def dmul_def)
  from search_properties [where queryVector = "[Fin 0]" and vs = vstore2 and limit = 10
      and minScore = "Fin 0"] z
  have e: "search vstore2 [Fin 0] 10 (Fin 0) = []" by blast
  from search_properties [where queryVector = "[Fin 1]" and vs = vstore2 and limit = 10
      and minScore = "Fin 0"]
  have m: "\<forall>(ident, sim) \<in> set (search vstore2 [Fin 1] 10 (Fin 0)). jsge sim (Fin 0)"
    and l: "length (search vstore2 [Fin 1] 10 (Fin 0)) \<le> nat 10"
    by auto
  from m s have "jsge (Fin 1) (Fin 0)" by simp
  then show ?thesis using z o e s l by simp
qed

text \<open>
  Claim C3 as stated fails in two places. A stored vector of norm zero does not empty the
  result: with the stored vectors \<open>[0]\<close> and \<open>[1]\<close> and the query \<open>[1]\<close> the second
  vector is returned; and the stored vector \<open>[2^-600]\<close>, whose computed norm is zero
  because its square is rounded to zero, is itself returned for the query \<open>[1]\<close>, with
  the similarity \<open>Infinity\<close>. And a negative limit counts from the back of the sorted
  list: with three matches and limit \<open>-1\<close> two results are returned.
\<close>

theorem search_zero_norm_stored_vector:
  "norm' [Fin 0] = Fin 0
   \<and> search vstore2 [Fin 1] 10 (Fin 0) = [(str ''b:chunk-0'', Fin 1)]
   \<and> norm' [Fin tiny] = Fin 0
   \<and> search vstoreTiny [Fin 1] 10 (Fin 0) = [(str ''t:chunk-0'', PosInf)]
   \<and> search vstore3 [Fin 1] (- 1) (Fin 0)
       = [(str ''a:chunk-0'', Fin 1), (str ''b:chunk-0'', Fin 1)]"
proof (intro conjI)
  show "norm' [Fin 0] = Fin 0" by (simp add: norm'_def dadd_def dmul_def)
  show "search vstore2 [Fin 1] 10 (Fin 0) = [(str ''b:chunk-0'', Fin 1)]"
    by (rule search_vstore2)
  show "norm' [Fin tiny] = Fin 0"
    by (simp add: norm'_def dadd_def dmul_def rnd_tiny_square)
  show "search vstoreTiny [Fin 1] 10 (Fin 0) = [(str ''t:chunk-0'', PosInf)]"
    using tiny_pos by (simp add: search_eval vstoreTiny_def rnd_tiny rnd_tiny_square)
  show "search vstore3 [Fin 1] (- 1) (Fin 0)
       = [(str ''a:chunk-0'', Fin 1), (str ''b:chunk-0'', Fin 1)]"
    by (simp add: search_eval vstore3_def)
qed

subsection \<open>Table rows\<close>

lemma buildRow_take:
  assumes "length headers \<le> length cells"
  shows "buildRow headers cells = buildRow headers (take (length headers) cells)"
proof -
  have "foldl (\<lambda>row (h, i). rowSet row h (cells ! i)) r0 ps
      = foldl (\<lambda>row (h, i). rowSet row h (take (length headers) cells ! i)) r0 ps"
    if "\<forall>(h, i) \<in> set ps. i < length headers" for ps r0
    using that by (induction ps arbitrary: r0) auto
  moreover have "\<forall>(h, i) \<in> set (zip headers [0..<length headers]). i < length headers"
    by (auto dest: set_zip_rightD)
  ultimately show ?thesis using assms by (simp add: buildRow_def)
qed

lemma rowLoop_eq:
  "rowLoop headers ls rows =
     rows @ map (\<lambda>l. buildRow headers (take (length headers) (tableCells l)))
              (filter (\<lambda>l. length headers \<le> length (tableCells l)) ls)"
  by (induction ls arbitrary: rows) (auto simp: Let_def buildRow_take [symmetric])

text \<open>
  Claim C10. \<open>parseTableRows\<close> treats the second pipe-prefixed line as the separator
  whatever it holds: with fewer than two such lines there are no rows, and otherwise the
  rows are built from the third line onward only, the second line having no part in the
  result. A line with fewer cells than the header has produces no row; a line with at
  least as many cells produces one row, built from as many leading cells as there are
  headers, the cells behind them being ignored.
\<close>

theorem parseTableRows_second_line_skipped:
  "(pipeLines content' = header # second # dataLines \<longrightarrow>
      parseTableRows content' =
        map (\<lambda>l. buildRow (tableHeaders header)
                   (take (length (tableHeaders header)) (tableCells l)))
          (filter (\<lambda>l. length (tableHeaders header) \<le> length (tableCells l)) dataLines))
   \<and> (length (pipeLines content') < 2 \<longrightarrow> parseTableRows content' = [])"
  by (simp add: parseTableRows_def Let_def rowLoop_eq)

theorem parseTableRows_second_line_skipped_witness:
  "pipeLines tableText =
     [str ''| a | `b` |'', str ''| 1 | 2 |'', str ''| 3 | 4 |'', str ''| 5 |'',
      str ''| 6 | 7 | 8 |'']
   \<and> tableHeaders (str ''| a | `b` |'') = [str ''a'', str ''b'']
   \<and> length (parseTableRows tableText) = 2
   \<and> (parseTableRows tableText ! 0) (str ''a'') = Some (str ''3'')
   \<and> (parseTableRows tableText ! 0) (str ''b'') = Some (str ''4'')
   \<and> (parseTableRows tableText ! 1) (str ''a'') = Some (str ''6'')
   \<and> (parseTableRows tableText ! 1) (str ''b'') = Some (str ''7'')
   \<and> length (pipeLines (str ''| a |'')) < 2
   \<and> parseTableRows (str ''| a |'') = []"
proof -
  have pl: "pipeLines tableText =
     str ''| a | `b` |'' # str ''| 1 | 2 |'' #
       [str ''| 3 | 4 |'', str ''| 5 |'', str ''| 6 | 7 | 8 |'']"
    by (simp add: pipeLines_def tableText_def string_eval splitStr_def)
  have hd: "tableHeaders (str ''| a | `b` |'') = [str ''a'', str ''b'']"
    by (simp add: tableHeaders_def stripTrailingPipe_def string_eval splitStr_def)
  have cells: "tableCells (str ''| 3 | 4 |'') = [str ''3'', str ''4'']"
    "tableCells (str ''| 5 |'') = [str ''5'']"
    "tableCells (str ''| 6 | 7 | 8 |'') = [str ''6'', str ''7'', str ''8'']"
    by (simp_all add: tableCells_def stripTrailingPipe_def string_eval splitStr_def)
  have short: "length (pipeLines (str ''| a |'')) < 2"
    by (simp add: pipeLines_def string_eval splitStr_def)
  from parseTableRows_second_line_skipped [of tableText "str ''| a | `b` |''" "str ''| 1 | 2 |''"
      "[str ''| 3 | 4 |'', str ''| 5 |'', str ''| 6 | 7 | 8 |'']"] pl
  have rows: "parseTableRows tableText =
     [buildRow [str ''a'', str ''b''] [str ''3'', str ''4''],
      buildRow [str ''a'', str ''b''] [str ''6'', str ''7'']]"
    by (simp add: hd cells)
  from parseTableRows_second_line_skipped [of "str ''| a |''"] short
  have none: "parseTableRows (str ''| a |'') = []" by blast
  show ?thesis
    unfolding rows using pl hd short none
    by (simp add: buildRow_def rowSet_def string_eval)
qed

subsection \<open>Chunk boundaries\<close>

lemma splitAcc_no_sep:
  "sep \<noteq> [] \<Longrightarrow> \<not> includesStr s sep \<Longrightarrow> splitAcc sep acc s = [rev acc @ s]"
  by (induction s arbitrary: acc) auto

lemma splitStr_single:
  "sep \<noteq> [] \<Longrightarrow> \<not> includesStr s sep \<Longrightarrow> splitStr s sep = [s]"
  by (simp add: splitStr_def splitAcc_no_sep)

lemma sentAcc_no_boundary:
  "\<not> hasSentenceBoundary t \<Longrightarrow> sentAcc acc t = [rev acc @ t]"
  by (induction acc t rule: sentAcc.induct) auto

lemma trimStart_fixed: "s \<noteq> [] \<Longrightarrow> \<not> isSpace (hd s) \<Longrightarrow> trimStart s = s"
  by (cases s) (auto simp: trimStart_def)

lemma trimEnd_head:
  assumes "s \<noteq> []" "\<not> isSpace (hd s)"
  shows "trimEnd s \<noteq> [] \<and> hd (trimEnd s) = hd s"
proof -
  obtain c cs where s: "s = c # cs" using assms by (cases s) auto
  have c: "\<not> isSpace c" using assms s by simp
  have "dropWhile isSpace (rev cs @ [c]) = dropWhile isSpace (rev cs) @ [c]"
    using c by (simp add: dropWhile_append)
  then have "trimEnd s = c # rev (dropWhile isSpace (rev cs))"
    by (simp add: trimEnd_def s)
  then show ?thesis using s by simp
qed

lemma trimEnd_idem: "trimEnd (trimEnd s) = trimEnd s"
  by (simp add: trimEnd_def)

lemma trim_Nil: "trim [] = []"
  by (simp add: trim_def trimStart_def trimEnd_def)

lemma trim_idem: "trim (trim s) = trim s"
proof (cases "trimStart s = []")
  case True
  have "trim s = []" unfolding trim_def True by (simp add: trimEnd_def)
  then show ?thesis by (simp add: trim_Nil)
next
  case False
  then have h: "\<not> isSpace (hd (trimStart s))"
    unfolding trimStart_def by (simp add: hd_dropWhile)
  from trimEnd_head [OF False h]
  have "trimStart (trimEnd (trimStart s)) = trimEnd (trimStart s)"
    using h by (intro trimStart_fixed) simp_all
  then show ?thesis by (simp add: trim_def trimEnd_idem)
qed

lemma splitSentences_no_boundary:
  assumes "\<not> hasSentenceBoundary (trim s)" "trim s \<noteq> []"
  shows "splitSentences (trim s) = [trim s]"
  using assms by (simp add: splitSentences_def sentAcc_no_boundary trim_idem)

lemma one_paragraph_fits:
  assumes "\<not> includesStr body (NL @ NL)" "trim body \<noteq> []" "int (length (trim body)) \<le> maxChars"
  shows "splitParagraphs body maxChars overlap = [(0, trim body)]"
proof -
  have "splitStr body (NL @ NL) = [body]"
    using assms(1) by (intro splitStr_single) (simp_all add: NL_def)
  then show ?thesis using assms(2,3)
    by (simp add: splitParagraphs_def flushStep_def placeStep_def Let_def)
qed

lemma one_paragraph_unsplittable:
  assumes "\<not> includesStr body (NL @ NL)" "int (length (trim body)) > maxChars"
    "\<not> hasSentenceBoundary (trim body)" "trim body \<noteq> []"
  shows "splitParagraphs body maxChars overlap = [(0, trim body)]"
proof -
  have "splitStr body (NL @ NL) = [body]"
    using assms(1) by (intro splitStr_single) (simp_all add: NL_def)
  then show ?thesis using assms(2,4) splitSentences_no_boundary [OF assms(3,4)]
    by (simp add: splitParagraphs_def flushStep_def placeStep_def Let_def)
qed

lemma two_paragraphs:
  assumes "splitStr body (NL @ NL) = [p1, p2]" "trim p1 \<noteq> []" "trim p2 \<noteq> []"
    "int (length (trim p1)) + int (length (trim p2)) + 4 > maxChars"
    "int (length (trim p1)) \<le> maxChars" "int (length (trim p2)) \<le> maxChars"
  shows "splitParagraphs body maxChars overlap =
     [(0, trim p1),
      (if 0 < overlap \<and> int (length (trim p1)) \<le> overlap
       then (0, trim p1 @ NL @ NL @ trim p2)
       else (int (length (trim p1)) + 2, trim p2))]"
  using assms
  by (simp add: splitParagraphs_def flushStep_def placeStep_def Let_def)

lemma pieceLoop_eq:
  "pieceLoop document identity section ps chunkIdx chunks = (chunks', chunkIdx') \<Longrightarrow>
     map chunk_content chunks' = map chunk_content chunks @ map snd ps"
  by (induction ps arbitrary: chunkIdx chunks) auto

lemma sectionLoop_contents:
  "map chunk_content
     (sectionLoop document identity allowed maxChars overlap secs chunkIdx chunks)
   = map chunk_content chunks
     @ concat (map (\<lambda>s. map snd (splitParagraphs (content s) maxChars overlap))
         (filter (\<lambda>s. toLowerCase (heading s) \<in> set allowed \<and> trim (content s) \<noteq> []) secs))"
proof (induction secs arbitrary: chunkIdx chunks)
  case Nil
  then show ?case by simp
next
  case (Cons sec rest)
  show ?case
  proof (cases "toLowerCase (heading sec) \<in> set allowed \<and> trim (content sec) \<noteq> []")
    case True
    obtain chunks' chunkIdx' where p: "pieceLoop document identity sec
                (splitParagraphs (content sec) maxChars overlap) chunkIdx chunks = (chunks', chunkIdx')"
      by (cases "pieceLoop document identity sec
                (splitParagraphs (content sec) maxChars overlap) chunkIdx chunks") auto
    show ?thesis using True p pieceLoop_eq [OF p] Cons.IH [of chunkIdx' chunks'] by simp
  next
    case False
    then show ?thesis using Cons.IH [of chunkIdx chunks] by auto
  qed
qed

lemma chunkDocument_contents:
  "map chunk_content (chunkDocument document maxChars overlap)
   = concat (map (\<lambda>s. map snd (splitParagraphs (content s) maxChars overlap))
       (filter (\<lambda>s. toLowerCase (heading s) \<in> set (embeddableSections (doc_kind document))
                   \<and> trim (content s) \<noteq> []) (sections document)))"
  by (simp add: chunkDocument_def Let_def sectionLoop_contents)


lemma splitAcc_skip:
  "10 \<notin> set a \<Longrightarrow> splitAcc (NL @ NL) acc (a @ rest) = splitAcc (NL @ NL) (rev a @ acc) rest"
  by (induction a arbitrary: acc) (auto simp: NL_def)

lemma splitStr_two_paragraphs:
  assumes "10 \<notin> set a" "10 \<notin> set b"
  shows "splitStr (a @ NL @ NL @ b) (NL @ NL) = [a, b]"
proof -
  have "splitAcc (NL @ NL) [] (a @ NL @ NL @ b) = splitAcc (NL @ NL) (rev a) (NL @ NL @ b)"
    using splitAcc_skip [OF assms(1), of "[]" "NL @ NL @ b"] by simp
  also have "\<dots> = a # splitAcc (NL @ NL) [] b"
    by (simp add: NL_def)
  also have "splitAcc (NL @ NL) [] b = [b]"
    using splitAcc_skip [OF assms(2), of "[]" "[]"] by simp
  finally show ?thesis by (simp add: splitStr_def NL_def)
qed

lemma trim_fixed:
  assumes "s \<noteq> []" "\<not> isSpace (hd s)" "\<not> isSpace (last s)"
  shows "trim s = s"
proof -
  have "trimStart s = s" using assms by (simp add: trimStart_fixed)
  moreover have "dropWhile isSpace (rev s) = rev s"
    using assms by (cases "rev s") (auto simp: last_rev [symmetric])
  ultimately show ?thesis by (simp add: trim_def trimEnd_def)
qed

lemma paraLoop_append:
  "paraLoop maxChars overlap (xs @ ys) st = paraLoop maxChars overlap ys (paraLoop maxChars overlap xs st)"
proof (induction xs arbitrary: st)
  case Nil
  then show ?case by simp
next
  case (Cons x xs)
  obtain results currentParts currentLen currentOffset charPos
    where st: "st = (results, currentParts, currentLen, currentOffset, charPos)"
    by (cases st) auto
  show ?case
    unfolding st by (simp add: Let_def Cons.IH split: prod.splits)
qed

lemma paraLoop_accumulate:
  assumes "\<forall>p \<in> set ps. trim p = p \<and> p \<noteq> []" "0 \<le> len"
    "len + (\<Sum>p\<leftarrow>ps. int (length p) + 2) \<le> maxChars"
  shows "paraLoop maxChars overlap ps (res, parts, len, off, pos) =
     (res, parts @ ps, len + (\<Sum>p\<leftarrow>ps. int (length p) + 2),
      (if parts = [] \<and> ps \<noteq> [] then pos else off),
      pos + (\<Sum>p\<leftarrow>ps. int (length p) + 2))"
  using assms
proof (induction ps arbitrary: parts len off pos)
  case Nil
  then show ?case by simp
next
  case (Cons p ps)
  have p: "trim p = p" "p \<noteq> []" using Cons.prems(1) by simp_all
  have nn: "0 \<le> (\<Sum>p\<leftarrow>ps. int (length p) + 2)" by (induction ps) auto
  have fit: "len + int (length p) + 2 \<le> maxChars" using Cons.prems(3) nn by simp
  have f: "flushStep maxChars overlap (int (length p)) (res, parts, len, off, pos)
      = (res, parts, len, off, pos)"
    using fit by (simp add: flushStep_def)
  have pl: "placeStep maxChars p (res, parts, len, off, pos)
      = (res, parts @ [p], len + (int (length p) + 2), (if parts = [] then pos else off), pos)"
    using fit Cons.prems(2) by (simp add: placeStep_def Let_def)
  have "paraLoop maxChars overlap (p # ps) (res, parts, len, off, pos)
      = paraLoop maxChars overlap ps
          (res, parts @ [p], len + (int (length p) + 2), (if parts = [] then pos else off),
           pos + (int (length p) + 2))"
    using p by (simp add: f pl)
  also have "\<dots> = (res, (parts @ [p]) @ ps,
      (len + (int (length p) + 2)) + (\<Sum>p\<leftarrow>ps. int (length p) + 2),
      (if parts @ [p] = [] \<and> ps \<noteq> [] then pos + (int (length p) + 2)
       else (if parts = [] then pos else off)),
      (pos + (int (length p) + 2)) + (\<Sum>p\<leftarrow>ps. int (length p) + 2))"
    using Cons.prems by (intro Cons.IH) auto
  finally show ?case by (simp add: algebra_simps)
qed

lemma length_join:
  "ps \<noteq> [] \<Longrightarrow>
     int (length (join ps sep)) = (\<Sum>p\<leftarrow>ps. int (length p)) + int (length sep) * (int (length ps) - 1)"
  by (induction ps sep rule: join.induct) (auto simp: algebra_simps)

lemma sum_plus_const:
  "(\<Sum>p\<leftarrow>ps. int (length p) + c) = (\<Sum>p\<leftarrow>ps. int (length p)) + c * int (length ps)"
  by (induction ps) (auto simp: algebra_simps)

lemma many_paragraphs:
  assumes sp: "splitStr body (NL @ NL) = ps" and n: "2 \<le> length ps"
    and tr: "\<forall>p \<in> set ps. trim p = p \<and> p \<noteq> []"
    and len: "int (length (join ps (NL @ NL))) = maxChars + 1"
  shows "splitParagraphs body maxChars overlap =
     [(0, join (butlast ps) (NL @ NL)),
      (if 0 < overlap \<and> int (length (last (butlast ps))) \<le> overlap
       then ((\<Sum>p\<leftarrow>butlast ps. int (length p) + 2) - int (length (last (butlast ps))) - 2,
             last (butlast ps) @ NL @ NL @ last ps)
       else ((\<Sum>p\<leftarrow>butlast ps. int (length p) + 2), last ps))]"
proof -
  let ?qs = "butlast ps" and ?pn = "last ps"
  let ?S = "\<Sum>p\<leftarrow>?qs. int (length p) + 2"
  have ne: "ps \<noteq> []" using n by auto
  have ps: "ps = ?qs @ [?pn]" using ne by simp
  have qne: "?qs \<noteq> []" using n by (cases ps rule: rev_cases) auto
  have pn: "trim ?pn = ?pn" "?pn \<noteq> []" using tr ne by simp_all
  have tq: "\<forall>p \<in> set ?qs. trim p = p \<and> p \<noteq> []" using tr by (auto dest: in_set_butlastD)
  have "(\<Sum>p\<leftarrow>ps. int (length p) + 2) = int (length (join ps (NL @ NL))) + 2"
    using length_join [OF ne, of "NL @ NL"] sum_plus_const [of 2 ps] by (simp add: NL_def algebra_simps)
  moreover have "(\<Sum>p\<leftarrow>ps. int (length p) + 2) = ?S + (int (length ?pn) + 2)"
    by (subst ps) simp
  ultimately have S: "?S + int (length ?pn) = maxChars + 1" using len by simp
  have "1 \<le> int (length ?pn)" using pn(2) by (cases ?pn) auto
  then have fit: "0 + ?S \<le> maxChars" using S by linarith
  have "3 \<le> int (length (hd ?qs)) + 2"
    using tq qne by (cases ?qs) (auto simp: Suc_le_eq)
  moreover have "int (length (hd ?qs)) + 2 \<le> ?S"
  proof -
    have "0 \<le> (\<Sum>p\<leftarrow>xs. int (length p) + 2)" for xs :: "jsstring list" by (induction xs) auto
    then show ?thesis using qne by (cases ?qs) auto
  qed
  ultimately have S3: "3 \<le> ?S" by simp
  have acc: "paraLoop maxChars overlap ?qs ([], [], 0, 0, 0) = ([], ?qs, ?S, 0, ?S)"
    using paraLoop_accumulate [OF tq _ fit, of overlap "[]" "[]" 0 0] qne by simp
  have "paraLoop maxChars overlap ps ([], [], 0, 0, 0)
      = paraLoop maxChars overlap [?pn] ([], ?qs, ?S, 0, ?S)"
    by (subst ps) (simp only: paraLoop_append acc)
  then show ?thesis
    using pn qne S S3 sp n
    by (simp add: splitParagraphs_def flushStep_def placeStep_def Let_def)
qed

lemma sentLoop_append:
  "sentLoop maxChars charPos (xs @ ys) st = sentLoop maxChars charPos ys (sentLoop maxChars charPos xs st)"
proof (induction xs arbitrary: st)
  case Nil
  then show ?case by simp
next
  case (Cons x xs)
  obtain results sentBuf sentLen sentOffset where st: "st = (results, sentBuf, sentLen, sentOffset)"
    by (cases st) auto
  show ?case unfolding st by (simp add: Cons.IH)
qed

lemma sentLoop_accumulate:
  assumes "0 \<le> len" "len + (\<Sum>s\<leftarrow>ss. int (length s) + 1) \<le> maxChars"
  shows "sentLoop maxChars charPos ss (res, buf, len, off) =
     (res, buf @ ss, len + (\<Sum>s\<leftarrow>ss. int (length s) + 1), off)"
  using assms
proof (induction ss arbitrary: buf len)
  case Nil
  then show ?case by simp
next
  case (Cons s ss)
  have nn: "0 \<le> (\<Sum>s\<leftarrow>ss. int (length s) + 1)" by (induction ss) auto
  have fit: "len + int (length s) + 1 \<le> maxChars" using Cons.prems(2) nn by simp
  have "sentLoop maxChars charPos (s # ss) (res, buf, len, off)
      = sentLoop maxChars charPos ss (res, buf @ [s], len + (int (length s) + 1), off)"
    using fit by simp
  also have "\<dots> = (res, (buf @ [s]) @ ss,
      (len + (int (length s) + 1)) + (\<Sum>s\<leftarrow>ss. int (length s) + 1), off)"
    using Cons.prems by (intro Cons.IH) auto
  finally show ?case by (simp add: algebra_simps)
qed

lemma many_sentences:
  assumes one: "\<not> includesStr body (NL @ NL)" and long: "int (length (trim body)) > maxChars"
    and ss: "splitSentences (trim body) = ss" and n: "2 \<le> length ss"
    and len: "int (length (join ss (str '' ''))) = maxChars + 1"
  shows "splitParagraphs body maxChars overlap =
     [(0, join (butlast ss) (str '' '')), (0, last ss)]"
proof -
  let ?qs = "butlast ss" and ?sn = "last ss"
  let ?T = "\<Sum>s\<leftarrow>?qs. int (length s) + 1"
  have ne: "ss \<noteq> []" using n by auto
  have sse: "ss = ?qs @ [?sn]" using ne by simp
  have qne: "?qs \<noteq> []" using n by (cases ss rule: rev_cases) auto
  have nonempty: "\<forall>s \<in> set ss. s \<noteq> []" using ss by (auto simp: splitSentences_def)
  then have sn: "?sn \<noteq> []" using ne by simp
  have "(\<Sum>s\<leftarrow>ss. int (length s) + 1) = int (length (join ss (str '' ''))) + 1"
    using length_join [OF ne, of "str '' ''"] sum_plus_const [of 1 ss]
    by (simp add: str_Nil str_Cons algebra_simps)
  moreover have "(\<Sum>s\<leftarrow>ss. int (length s) + 1) = ?T + (int (length ?sn) + 1)"
    by (subst sse) simp
  ultimately have T: "?T + int (length ?sn) = maxChars + 1" using len by simp
  have "1 \<le> int (length ?sn)" using sn by (cases ?sn) auto
  then have fit: "0 + ?T \<le> maxChars" using T by linarith
  have acc: "sentLoop maxChars 0 ?qs ([], [], 0, 0) = ([], ?qs, ?T, 0)"
    using sentLoop_accumulate [OF _ fit, of 0 "[]" "[]" 0] by simp
  have loop: "sentLoop maxChars 0 ss ([], [], 0, 0)
      = ([(0, join ?qs (str '' ''))], [?sn], int (length ?sn) + 1, 0)"
    using T qne n by (subst sse) (simp add: sentLoop_append acc)
  have single: "splitStr body (NL @ NL) = [body]"
    using one by (intro splitStr_single) (simp_all add: NL_def)
  have tne: "trim body \<noteq> []"
  proof
    assume "trim body = []"
    then have "splitSentences (trim body) = []" by (simp add: splitSentences_def trim_Nil)
    with ss ne show False by simp
  qed
  show ?thesis
    using single tne long ss loop
    by (simp add: splitParagraphs_def flushStep_def placeStep_def Let_def)
qed

lemma default_size_two_paragraphs:
  "map chunk_content
     (chunkDocument (docWithBody (replicate 749 97 @ NL @ NL @ replicate 749 98)) 1500 200)
   = [replicate 749 97, replicate 749 98]"
proof -
  let ?a = "replicate 749 (97 :: nat)" and ?b = "replicate 749 (98 :: nat)"
  let ?body = "?a @ NL @ NL @ ?b"
  have ns: "\<not> isSpace 97" "\<not> isSpace 98" by (simp_all add: isSpace_def)
  have hl: "hd ?body = 97" "last ?body = 98" "?body \<noteq> []"
    by (simp_all add: hd_append NL_def)
  have tb: "trim ?body = ?body" using hl ns by (intro trim_fixed) simp_all
  have ta: "trim ?a = ?a" using ns by (intro trim_fixed) simp_all
  have tbb: "trim ?b = ?b" using ns by (intro trim_fixed) simp_all
  have sp: "splitStr ?body (NL @ NL) = [?a, ?b]"
    by (intro splitStr_two_paragraphs) simp_all
  have "splitParagraphs ?body 1500 200 = [(0, ?a), (751, ?b)]"
    using two_paragraphs [OF sp, of 1500 200] by (simp add: ta tbb)
  moreover have "toLowerCase (str ''Description'') \<in> set (embeddableSections ENTITY)"
    by (simp add: embeddableSections_def string_eval)
  ultimately show ?thesis
    using tb hl by (simp add: chunkDocument_contents docWithBody_def)
qed

lemma default_size_blank_lines:
  "map chunk_content
     (chunkDocument
        (docWithBody (replicate 747 97 @ NL @ NL @ NL @ NL @ NL @ NL @ replicate 748 98))
        1500 200)
   = [replicate 747 97 @ NL @ NL @ replicate 748 98]"
proof -
  let ?a = "replicate 747 (97 :: nat)" and ?b = "replicate 748 (98 :: nat)"
  let ?body = "?a @ NL @ NL @ NL @ NL @ NL @ NL @ ?b"
  have ns: "\<not> isSpace 97" "\<not> isSpace 98" by (simp_all add: isSpace_def)
  have hl: "hd ?body = 97" "last ?body = 98" "?body \<noteq> []"
    by (simp_all add: hd_append NL_def)
  have tb: "trim ?body = ?body" using hl ns by (intro trim_fixed) simp_all
  have ta: "trim ?a = ?a" using ns by (intro trim_fixed) simp_all
  have tbb: "trim ?b = ?b" using ns by (intro trim_fixed) simp_all
  have "splitAcc (NL @ NL) [] ?body = splitAcc (NL @ NL) (rev ?a) (NL @ NL @ NL @ NL @ NL @ NL @ ?b)"
    using splitAcc_skip [of ?a "[]" "NL @ NL @ NL @ NL @ NL @ NL @ ?b"] by simp
  also have "\<dots> = ?a # [] # [] # splitAcc (NL @ NL) [] ?b"
    by (simp add: NL_def)
  also have "splitAcc (NL @ NL) [] ?b = [?b]"
    using splitAcc_skip [of ?b "[]" "[]"] by simp
  finally have sp: "splitStr ?body (NL @ NL) = [?a, [], [], ?b]"
    by (simp add: splitStr_def NL_def)
  have "splitParagraphs ?body 1500 200 = [(0, ?a @ NL @ NL @ ?b)]"
    by (simp add: splitParagraphs_def sp ta tbb trim_Nil flushStep_def placeStep_def Let_def)
  moreover have "toLowerCase (str ''Description'') \<in> set (embeddableSections ENTITY)"
    by (simp add: embeddableSections_def string_eval)
  ultimately show ?thesis
    using tb hl by (simp add: chunkDocument_contents docWithBody_def)
qed

text \<open>
  Claim C7, as amended. The contents of the chunks of a document are, in order, the
  pieces of \<open>splitParagraphs\<close> for its embeddable sections with a non-blank body. For such
  a body and every \<open>max_chunk_chars\<close>: a body that is a single paragraph (no blank line
  in it) of at most \<open>max_chunk_chars\<close> characters after trimming gives exactly one
  chunk; a body of two or more trimmed paragraphs that make \<open>max_chunk_chars + 1\<close>
  characters when joined by single blank lines gives two chunks, the first with all
  paragraphs but the last, the second with the last paragraph, preceded by the one
  before it when that fits the overlap; a single paragraph of \<open>max_chunk_chars + 1\<close>
  characters made of two or more sentences, joined by single spaces, gives two chunks, the
  second with the last sentence; and a single paragraph longer than \<open>max_chunk_chars\<close>
  without a sentence boundary gives exactly one chunk, the whole paragraph.
\<close>

theorem chunker_boundaries:
  "map chunk_content (chunkDocument document maxChars overlap)
     = concat (map (\<lambda>s. map snd (splitParagraphs (content s) maxChars overlap))
         (filter (\<lambda>s. toLowerCase (heading s) \<in> set (embeddableSections (doc_kind document))
                     \<and> trim (content s) \<noteq> []) (sections document)))
   \<and> (\<not> includesStr body (NL @ NL) \<and> trim body \<noteq> [] \<and> int (length (trim body)) \<le> maxChars
        \<longrightarrow> splitParagraphs body maxChars overlap = [(0, trim body)])
   \<and> (splitStr body (NL @ NL) = ps \<and> 2 \<le> length ps \<and> (\<forall>p \<in> set ps. trim p = p \<and> p \<noteq> [])
        \<and> int (length (join ps (NL @ NL))) = maxChars + 1
        \<longrightarrow> splitParagraphs body maxChars overlap =
              [(0, join (butlast ps) (NL @ NL)),
               (if 0 < overlap \<and> int (length (last (butlast ps))) \<le> overlap
                then ((\<Sum>p\<leftarrow>butlast ps. int (length p) + 2)
                        - int (length (last (butlast ps))) - 2,
                      last (butlast ps) @ NL @ NL @ last ps)
                else ((\<Sum>p\<leftarrow>butlast ps. int (length p) + 2), last ps))])
   \<and> (\<not> includesStr body (NL @ NL) \<and> int (length (trim body)) = maxChars + 1
        \<and> splitSentences (trim body) = ss \<and> 2 \<le> length ss
        \<and> int (length (join ss (str '' ''))) = maxChars + 1
        \<longrightarrow> splitParagraphs body maxChars overlap
              = [(0, join (butlast ss) (str '' '')), (0, last ss)])
   \<and> (\<not> includesStr body (NL @ NL) \<and> int (length (trim body)) > maxChars
        \<and> trim body \<noteq> [] \<and> \<not> hasSentenceBoundary (trim body)
        \<longrightarrow> splitParagraphs body maxChars overlap = [(0, trim body)])"
proof (intro conjI impI)
  show "map chunk_content (chunkDocument document maxChars overlap)
     = concat (map (\<lambda>s. map snd (splitParagraphs (content s) maxChars overlap))
         (filter (\<lambda>s. toLowerCase (heading s) \<in> set (embeddableSections (doc_kind document))
                     \<and> trim (content s) \<noteq> []) (sections document)))"
    by (rule chunkDocument_contents)
next
  assume "\<not> includesStr body (NL @ NL) \<and> trim body \<noteq> [] \<and> int (length (trim body)) \<le> maxChars"
  then show "splitParagraphs body maxChars overlap = [(0, trim body)]"
    by (simp add: one_paragraph_fits)
next
  assume "splitStr body (NL @ NL) = ps \<and> 2 \<le> length ps \<and> (\<forall>p \<in> set ps. trim p = p \<and> p \<noteq> [])
        \<and> int (length (join ps (NL @ NL))) = maxChars + 1"
  then show "splitParagraphs body maxChars overlap =
              [(0, join (butlast ps) (NL @ NL)),
               (if 0 < overlap \<and> int (length (last (butlast ps))) \<le> overlap
                then ((\<Sum>p\<leftarrow>butlast ps. int (length p) + 2)
                        - int (length (last (butlast ps))) - 2,
                      last (butlast ps) @ NL @ NL @ last ps)
                else ((\<Sum>p\<leftarrow>butlast ps. int (length p) + 2), last ps))]"
    by (intro many_paragraphs) blast+
next
  assume "\<not> includesStr body (NL @ NL) \<and> int (length (trim body)) = maxChars + 1
        \<and> splitSentences (trim body) = ss \<and> 2 \<le> length ss
        \<and> int (length (join ss (str '' ''))) = maxChars + 1"
  then show "splitParagraphs body maxChars overlap
              = [(0, join (butlast ss) (str '' '')), (0, last ss)]"
    by (intro many_sentences) auto
next
  assume "\<not> includesStr body (NL @ NL) \<and> int (length (trim body)) > maxChars
        \<and> trim body \<noteq> [] \<and> \<not> hasSentenceBoundary (trim body)"
  then show "splitParagraphs body maxChars overlap = [(0, trim body)]"
    by (simp add: one_paragraph_unsplittable)
qed

theorem chunker_boundaries_witness:
  "splitParagraphs (str ''abcde'') 5 200 = [(0, str ''abcde'')]
   \<and> splitParagraphs (str ''ab'' @ NL @ NL @ str ''c'' @ NL @ NL @ str ''de'') 8 200
       = [(0, str ''ab'' @ NL @ NL @ str ''c''), (4, str ''c'' @ NL @ NL @ str ''de'')]
   \<and> splitParagraphs (str ''a. b. cd'') 7 200 = [(0, str ''a. b.''), (0, str ''cd'')]
   \<and> splitParagraphs (str ''abcdefg'') 5 200 = [(0, str ''abcdefg'')]"
proof -
  have t: "trim (str ''abcde'') = str ''abcde''" "trim (str ''a. b. cd'') = str ''a. b. cd''"
    "trim (str ''abcdefg'') = str ''abcdefg''"
    by (simp_all add: string_eval)
  have a: "\<not> includesStr (str ''abcde'') (NL @ NL) \<and> trim (str ''abcde'') \<noteq> []
      \<and> int (length (trim (str ''abcde''))) \<le> 5"
    by (simp add: string_eval)
  have b: "splitStr (str ''ab'' @ NL @ NL @ str ''c'' @ NL @ NL @ str ''de'') (NL @ NL)
        = [str ''ab'', str ''c'', str ''de'']
      \<and> 2 \<le> length [str ''ab'', str ''c'', str ''de'']
      \<and> (\<forall>p \<in> set [str ''ab'', str ''c'', str ''de'']. trim p = p \<and> p \<noteq> [])
      \<and> int (length (join [str ''ab'', str ''c'', str ''de''] (NL @ NL))) = 8 + 1"
    by (simp add: string_eval splitStr_def)
  have c: "\<not> includesStr (str ''a. b. cd'') (NL @ NL) \<and> int (length (trim (str ''a. b. cd''))) = 7 + 1
      \<and> splitSentences (trim (str ''a. b. cd'')) = [str ''a.'', str ''b.'', str ''cd'']
      \<and> 2 \<le> length [str ''a.'', str ''b.'', str ''cd'']
      \<and> int (length (join [str ''a.'', str ''b.'', str ''cd''] (str '' ''))) = 7 + 1"
    by (simp add: string_eval splitSentences_def)
  have d: "\<not> includesStr (str ''abcdefg'') (NL @ NL) \<and> int (length (trim (str ''abcdefg''))) > 5
      \<and> trim (str ''abcdefg'') \<noteq> [] \<and> \<not> hasSentenceBoundary (trim (str ''abcdefg''))"
    by (simp add: string_eval)
  from chunker_boundaries [where maxChars = 5 and overlap = 200 and body = "str ''abcde''"] a
  have 1: "splitParagraphs (str ''abcde'') 5 200 = [(0, trim (str ''abcde''))]" by blast
  from chunker_boundaries [where maxChars = 8 and overlap = 200
      and body = "str ''ab'' @ NL @ NL @ str ''c'' @ NL @ NL @ str ''de''"
      and ps = "[str ''ab'', str ''c'', str ''de'']"] b
  have 2: "splitParagraphs (str ''ab'' @ NL @ NL @ str ''c'' @ NL @ NL @ str ''de'') 8 200 =
              [(0, join (butlast [str ''ab'', str ''c'', str ''de'']) (NL @ NL)),
               (if (0::int) < 200 \<and> int (length (last (butlast [str ''ab'', str ''c'', str ''de'']))) \<le> 200
                then ((\<Sum>p\<leftarrow>butlast [str ''ab'', str ''c'', str ''de'']. int (length p) + 2)
                        - int (length (last (butlast [str ''ab'', str ''c'', str ''de'']))) - 2,
                      last (butlast [str ''ab'', str ''c'', str ''de'']) @ NL @ NL
                        @ last [str ''ab'', str ''c'', str ''de''])
                else ((\<Sum>p\<leftarrow>butlast [str ''ab'', str ''c'', str ''de'']. int (length p) + 2),
                      last [str ''ab'', str ''c'', str ''de'']))]" by blast
  from chunker_boundaries [where maxChars = 7 and overlap = 200
      and body = "str ''a. b. cd''" and ss = "[str ''a.'', str ''b.'', str ''cd'']"] c
  have 3: "splitParagraphs (str ''a. b. cd'') 7 200
      = [(0, join (butlast [str ''a.'', str ''b.'', str ''cd'']) (str '' '')),
         (0, last [str ''a.'', str ''b.'', str ''cd''])]" by blast
  from chunker_boundaries [where maxChars = 5 and overlap = 200 and body = "str ''abcdefg''"] d
  have 4: "splitParagraphs (str ''abcdefg'') 5 200 = [(0, trim (str ''abcdefg''))]" by blast
  show ?thesis unfolding 1 2 3 4 t by (simp add: string_eval)
qed

text \<open>
  Claim C7 as stated fails in its first two parts, here at the default sizes 1500 and 200
  (code units 97 and 98 are letters). A trimmed body of exactly \<open>max_chunk_chars\<close>
  characters that holds two paragraphs gives two chunks, because the size test counts the
  separator of the pending part twice. And a body of \<open>max_chunk_chars + 1\<close> characters
  with a paragraph boundary gives one chunk when the boundary is more than one blank line,
  because only the trimmed paragraphs are counted.
\<close>

theorem chunk_default_size_failures:
  "int (length (replicate 749 97 @ NL @ NL @ replicate 749 98)) = 1500
   \<and> map chunk_content
         (chunkDocument (docWithBody (replicate 749 97 @ NL @ NL @ replicate 749 98)) 1500 200)
       = [replicate 749 97, replicate 749 98]
   \<and> int (length (replicate 747 97 @ NL @ NL @ NL @ NL @ NL @ NL @ replicate 748 98)) = 1501
   \<and> map chunk_content
         (chunkDocument
            (docWithBody (replicate 747 97 @ NL @ NL @ NL @ NL @ NL @ NL @ replicate 748 98))
            1500 200)
       = [replicate 747 97 @ NL @ NL @ replicate 748 98]"
  using default_size_two_paragraphs default_size_blank_lines by (simp add: NL_def)

subsection \<open>Hybrid search\<close>

lemma graphNodeLoop_same:
  "\<forall>n \<in> set ns. id' n = seedId \<Longrightarrow>
     graphNodeLoop includeKinds includeLayers seedId ns scores = scores"
  by (induction ns) auto

lemma lexical_fusion_score:
  "computeFusionScore [(str ''lexical'', Fin (1 / 2))] = Fin (1 / 24)"
  by (simp add: computeFusionScore_def getOr0_def str_Nil str_Cons jsgt_def Math_min_def
      WEIGHT_SEMANTIC_def WEIGHT_GRAPH_def WEIGHT_LEXICAL_def Let_def)

lemma lexical_match_source:
  "determineMatchSource [(str ''lexical'', Fin (1 / 2))] = str ''lexical''"
  by (simp add: determineMatchSource_def getOr0_def str_Nil str_Cons jsgt_def Let_def)

lemma truncateLoop_single:
  "truncateLoop limit maxTokens [x] ([], 0) = ([x], countTokens (snippet x))"
  by (simp add: Let_def)

lemma hybridPhases_single_lexical:
  assumes filters: "includeKinds' input = None" "includeLayers' input = None"
    and one: "textSearch graphStore (queryText' input) None = [node]"
    and stored: "getNode graphStore (id' node) = Some node"
    and alone: "\<forall>n \<in> set (fst (traverse graphStore (id' node)
                  (case depth' input of None \<Rightarrow> 2 | Some d \<Rightarrow> d) None
                  (case respectLayers' input of None \<Rightarrow> True | Some b \<Rightarrow> b))).
                id' n = id' node"
  shows "results (hybridPhases input graphStore None) =
           (if jslt (Fin (1 / 24)) (case minScore' input of None \<Rightarrow> Fin (1 / 2) | Some m \<Rightarrow> m)
            then []
            else [\<lparr>node_id = id' node, score = Fin (1 / 24), snippet = buildSnippet node,
                    match_source = str ''lexical''\<rparr>])"
    and "warnings (hybridPhases input graphStore None) =
           [str ''NO_EMBEDDINGS: index is L1, semantic search skipped'']"
proof -
  let ?depth = "case depth' input of None \<Rightarrow> 2 | Some d \<Rightarrow> d"
  let ?rl = "case respectLayers' input of None \<Rightarrow> True | Some b \<Rightarrow> b"
  let ?min = "case minScore' input of None \<Rightarrow> Fin (1 / 2) | Some m \<Rightarrow> m"
  let ?scores = "[(id' node, [(str ''lexical'', Fin (1 / 2))])]"
  let ?x = "\<lparr>node_id = id' node, score = Fin (1 / 24), snippet = buildSnippet node,
                    match_source = str ''lexical''\<rparr>"
  have lex: "lexicalLoop None None [node] [] = ?scores"
    by (simp add: kindLayerFilter_def getSources_def)
  have has: "hasNode graphStore (id' node)"
  proof -
    have "(id' node, node) \<in> set (nodes graphStore)"
      using stored unfolding getNode_def by (rule map_of_SomeD)
    then show ?thesis unfolding hasNode_def by force
  qed
  obtain ns edges where t: "traverse graphStore (id' node) ?depth None ?rl = (ns, edges)"
    by (cases "traverse graphStore (id' node) ?depth None ?rl") auto
  have "\<forall>n \<in> set ns. id' n = id' node" using alone t by simp
  then have seed: "seedLoop graphStore ?depth ?rl None None [id' node] (?scores, [])
      = (?scores, edges)"
    using has t by (simp add: graphNodeLoop_same)
  have fus: "fusionLoop graphStore None None ?min ?scores [] = (if jslt (Fin (1 / 24)) ?min then [] else [?x])"
    using stored
    by (simp add: kindLayerFilter_def lexical_fusion_score lexical_match_source)
  have srt: "sortBy cmp (if c then [] else [?x]) = (if c then [] else [?x])" for cmp c
    by (simp add: sortBy_def)
  have tr: "fst (truncateLoop limit maxTokens (if c then [] else [?x]) ([], 0))
      = (if c then [] else [?x])" for limit maxTokens c
    by (simp add: Let_def)
  show "results (hybridPhases input graphStore None) = (if jslt (Fin (1 / 24)) ?min then [] else [?x])"
    by (cases "case expandGraph' input of None \<Rightarrow> True | Some b \<Rightarrow> b")
       (simp_all add: hybridPhases_def Let_def filters one lex seed fus srt tr case_prod_unfold
          del: lexicalLoop.simps seedLoop.simps fusionLoop.simps truncateLoop.simps)
  show "warnings (hybridPhases input graphStore None) =
           [str ''NO_EMBEDDINGS: index is L1, semantic search skipped'']"
    by (simp add: hybridPhases_def Let_def case_prod_unfold)
qed

lemma impact_query_length: "\<not> length (trim (str ''impact analysis'')) < 3"
  by (simp add: string_eval)

lemma storeImpact_textSearch:
  "textSearch storeImpact (str ''impact analysis'') None = [nodeImpact]"
  by (simp add: textSearch_def nodeMatchesText_def storeImpact_def nodeImpact_def nodeB_def
      string_eval Let_def)

lemma storeImpact_getNode: "getNode storeImpact (id' nodeImpact) = Some nodeImpact"
  by (simp add: getNode_def storeImpact_def nodeImpact_def)

lemma storeImpact_traverse:
  "traverse storeImpact (id' nodeImpact) 2 None True = ([nodeImpact], [])"
  by (simp add: traverse_def expandNode_def outEdges_def inEdges_def adjacency_eval storeImpact_def
      nodeImpact_def string_eval)

lemma impactInput_fields:
  "queryText' (impactInput m) = str ''impact analysis''"
  "includeKinds' (impactInput m) = None" "includeLayers' (impactInput m) = None"
  "depth' (impactInput m) = None" "respectLayers' (impactInput m) = None"
  "minScore' (impactInput m) = m"
  by (simp_all add: impactInput_def)

text \<open>
  Claim C1, as amended. For every graph store in which the text search for
  \<open>impact analysis\<close> finds exactly one node, stored under its ID, and the traversal from
  that node reaches no other node, a call of \<open>hybridSearch\<close> without vector store or
  without encoder, and without kind and layer filters, returns the warning
  \<open>NO_EMBEDDINGS\<close>; the node is the only evidenced result, with match source
  \<open>lexical\<close> and fused score \<open>0.5 \<cdot> 0.1 / 1.2 = 1/24\<close>, about 0.042. The result list
  holds that node when \<open>minScore\<close> is not above the score and is empty otherwise: empty
  for the default 0.5 and for 0.05, one result for 0.04.
\<close>

theorem hybrid_lexical_only:
  assumes "vectorStore = None \<or> encodeFn = None"
    and "queryText' input = str ''impact analysis''"
    and "includeKinds' input = None" "includeLayers' input = None"
    and "textSearch graphStore (queryText' input) None = [node]"
    and "getNode graphStore (id' node) = Some node"
    and "\<forall>n \<in> set (fst (traverse graphStore (id' node)
                  (case depth' input of None \<Rightarrow> 2 | Some d \<Rightarrow> d) None
                  (case respectLayers' input of None \<Rightarrow> True | Some b \<Rightarrow> b))).
                id' n = id' node"
  shows "\<exists>r. hybridSearch input graphStore vectorStore encodeFn w = (Inr r, w)
      \<and> warnings r = [str ''NO_EMBEDDINGS: index is L1, semantic search skipped'']
      \<and> results r =
           (if jslt (Fin (1 / 24)) (case minScore' input of None \<Rightarrow> Fin (1 / 2) | Some m \<Rightarrow> m)
            then []
            else [\<lparr>node_id = id' node, score = Fin (1 / 24), snippet = buildSnippet node,
                    match_source = str ''lexical''\<rparr>])
      \<and> (minScore' input = None \<longrightarrow> results r = [])
      \<and> (minScore' input = Some (Fin (5 / 100)) \<longrightarrow> results r = [])
      \<and> (minScore' input = Some (Fin (4 / 100)) \<longrightarrow>
            results r = [\<lparr>node_id = id' node, score = Fin (1 / 24),
                           snippet = buildSnippet node, match_source = str ''lexical''\<rparr>])"
proof -
  have "hybridSearch input graphStore vectorStore encodeFn w
      = (Inr (hybridPhases input graphStore None), w)"
    using assms(1,2) impact_query_length
    by (auto simp: hybridSearch_def split: option.splits)
  moreover note hybridPhases_single_lexical [OF assms(3-7)]
  ultimately show ?thesis by auto
qed

theorem hybrid_lexical_only_witness:
  "results (projr (fst (hybridSearch (impactInput None) storeImpact None
       (None :: unit encoder option) ()))) = []
   \<and> results (projr (fst (hybridSearch (impactInput (Some (Fin (5 / 100)))) storeImpact None
       (None :: unit encoder option) ()))) = []
   \<and> results (projr (fst (hybridSearch (impactInput (Some (Fin (4 / 100)))) storeImpact None
       (None :: unit encoder option) ())))
       = [\<lparr>node_id = str ''QRY:QRY-004'', score = Fin (1 / 24),
            snippet = str ''[query] Impact Analysis'', match_source = str ''lexical''\<rparr>]
   \<and> warnings (projr (fst (hybridSearch (impactInput (Some (Fin (4 / 100)))) storeImpact None
       (None :: unit encoder option) ())))
       = [str ''NO_EMBEDDINGS: index is L1, semantic search skipped'']"
proof -
  have pre: "textSearch storeImpact (queryText' (impactInput m)) None = [nodeImpact]"
    "\<forall>n \<in> set (fst (traverse storeImpact (id' nodeImpact)
                  (case depth' (impactInput m) of None \<Rightarrow> 2 | Some d \<Rightarrow> d) None
                  (case respectLayers' (impactInput m) of None \<Rightarrow> True | Some b \<Rightarrow> b))).
                id' n = id' nodeImpact" for m
    by (simp_all add: impactInput_fields storeImpact_textSearch storeImpact_traverse)
  have sn: "buildSnippet nodeImpact = str ''[query] Impact Analysis''"
    "id' nodeImpact = str ''QRY:QRY-004''"
    by (simp_all add: buildSnippet_def nodeImpact_def string_eval)
  note w = hybrid_lexical_only [where vectorStore = None
      and encodeFn = "None :: unit encoder option" and graphStore = storeImpact
      and node = nodeImpact and w = "()", OF _ impactInput_fields(1,2,3) pre(1)
      storeImpact_getNode pre(2)]
  from w [of None] have 1: "results (projr (fst (hybridSearch (impactInput None) storeImpact None
       (None :: unit encoder option) ()))) = []"
    by (auto simp: impactInput_fields)
  from w [of "Some (Fin (5 / 100))"]
  have 2: "results (projr (fst (hybridSearch (impactInput (Some (Fin (5 / 100)))) storeImpact None
       (None :: unit encoder option) ()))) = []"
    by (auto simp: impactInput_fields)
  from w [of "Some (Fin (4 / 100))"]
  have 3: "results (projr (fst (hybridSearch (impactInput (Some (Fin (4 / 100)))) storeImpact None
       (None :: unit encoder option) ())))
       = [\<lparr>node_id = id' nodeImpact, score = Fin (1 / 24),
            snippet = buildSnippet nodeImpact, match_source = str ''lexical''\<rparr>]"
    "warnings (projr (fst (hybridSearch (impactInput (Some (Fin (4 / 100)))) storeImpact None
       (None :: unit encoder option) ())))
       = [str ''NO_EMBEDDINGS: index is L1, semantic search skipped'']"
    by (auto simp: impactInput_fields)
  show ?thesis using 1 2 3 by (simp add: sn)
qed

text \<open>
  Claim C1 as stated fails: the fused score of a node with lexical evidence only is
  \<open>1/24\<close>, not \<open>0.1 / 1.2\<close>, because the lexical phase records 0.5 and not 1; it is
  below 0.05, so with \<open>minScore = 0.05\<close> the result list is empty.
\<close>

theorem hybrid_lexical_score_below_threshold:
  "results (projr (fst (hybridSearch (impactInput (Some (Fin (5 / 100)))) storeImpact None
       (None :: unit encoder option) ()))) = []
   \<and> map score (results (projr (fst (hybridSearch (impactInput (Some (Fin (4 / 100))))
       storeImpact None (None :: unit encoder option) ())))) = [Fin (1 / 24)]
   \<and> Fin (1 / 24) \<noteq> Fin ((1 / 10) / (12 / 10))"
proof -
  have pre: "textSearch storeImpact (queryText' (impactInput m)) None = [nodeImpact]"
    "\<forall>n \<in> set (fst (traverse storeImpact (id' nodeImpact)
                  (case depth' (impactInput m) of None \<Rightarrow> 2 | Some d \<Rightarrow> d) None
                  (case respectLayers' (impactInput m) of None \<Rightarrow> True | Some b \<Rightarrow> b))).
                id' n = id' nodeImpact" for m
    by (simp_all add: impactInput_fields storeImpact_textSearch storeImpact_traverse)
  have r: "results (hybridPhases (impactInput m) storeImpact None) =
           (if jslt (Fin (1 / 24)) (case m of None \<Rightarrow> Fin (1 / 2) | Some m \<Rightarrow> m)
            then []
            else [\<lparr>node_id = id' nodeImpact, score = Fin (1 / 24),
                    snippet = buildSnippet nodeImpact, match_source = str ''lexical''\<rparr>])" for m
    using hybridPhases_single_lexical(1) [OF impactInput_fields(2,3) pre(1) storeImpact_getNode pre(2), of m]
    by (simp add: impactInput_fields)
  have h: "hybridSearch (impactInput m) storeImpact None (None :: unit encoder option) ()
       = (Inr (hybridPhases (impactInput m) storeImpact None), ())" for m
    using impact_query_length by (simp add: hybridSearch_def impactInput_fields)
  show ?thesis by (simp add: h r)
qed

text \<open>
  Claim C5. When the query text has fewer than three code units after trimming, the empty
  text included, the hybrid query and the semantic query fail with \<open>QUERY_TOO_SHORT\<close>.
  The outcome is the same for every graph store, vector store and encoder, and the world
  of the encoder is the one the call started in: the encoder is not called, the stores
  have no influence, and there is no result beside the error.
\<close>

theorem query_too_short:
  "(length (trim (queryText' input)) < 3 \<longrightarrow>
      hybridSearch input graphStore vectorStore encodeFn w = (Inl QUERY_TOO_SHORT, w))
   \<and> (length (trim (sq_queryText sinput)) < 3 \<longrightarrow>
      semanticQuery sinput vectorStore' graphStore encodeFn' modelName w'
        = (Inl QUERY_TOO_SHORT, w'))"
  by (simp add: hybridSearch_def semanticQuery_def)

theorem query_too_short_witness:
  "length (trim (str '' ab '')) < 3 \<and> length (trim []) < 3
   \<and> hybridSearch (impactInput None\<lparr>queryText' := str '' ab ''\<rparr>) storeImpact (Some vstore2)
        (Some countingEncoder) 0 = (Inl QUERY_TOO_SHORT, 0)
   \<and> hybridSearch (impactInput None\<lparr>queryText' := []\<rparr>) storeImpact (Some vstore2)
        (Some countingEncoder) 0 = (Inl QUERY_TOO_SHORT, 0)
   \<and> semanticQuery \<lparr>sq_queryText = str '' ab '', sq_includeKinds = None, sq_includeLayers = None,
          sq_minScore = None, sq_limit = None\<rparr> vstore2 storeImpact countingEncoder
        (str ''model'') 0 = (Inl QUERY_TOO_SHORT, 0)
   \<and> snd (hybridSearch (impactInput None) storeImpact (Some vstore2) (Some countingEncoder) 0)
        = 1"
proof -
  have s: "length (trim (str '' ab '')) < 3" "length (trim []) < 3"
    by (simp_all add: string_eval)
  have c: "snd (hybridSearch (impactInput None) storeImpact (Some vstore2)
      (Some countingEncoder) 0) = 1"
    using impact_query_length
    by (simp add: hybridSearch_def impactInput_fields countingEncoder_def Let_def)
  from query_too_short [where input = "impactInput None\<lparr>queryText' := str '' ab ''\<rparr>"
      and graphStore = storeImpact and vectorStore = "Some vstore2"
      and encodeFn = "Some countingEncoder" and w = 0
      and sinput = "\<lparr>sq_queryText = str '' ab '', sq_includeKinds = None,
          sq_includeLayers = None, sq_minScore = None, sq_limit = None\<rparr>"
      and vectorStore' = vstore2 and encodeFn' = countingEncoder and modelName = "str ''model''"
      and w' = 0] s(1)
  have 1: "hybridSearch (impactInput None\<lparr>queryText' := str '' ab ''\<rparr>) storeImpact (Some vstore2)
        (Some countingEncoder) 0 = (Inl QUERY_TOO_SHORT, 0)"
    "semanticQuery \<lparr>sq_queryText = str '' ab '', sq_includeKinds = None, sq_includeLayers = None,
          sq_minScore = None, sq_limit = None\<rparr> vstore2 storeImpact countingEncoder
        (str ''model'') 0 = (Inl QUERY_TOO_SHORT, 0)"
    by simp_all
  from query_too_short [where input = "impactInput None\<lparr>queryText' := []\<rparr>"
      and graphStore = storeImpact and vectorStore = "Some vstore2"
      and encodeFn = "Some countingEncoder" and w = 0
      and sinput = "\<lparr>sq_queryText = str '' ab '', sq_includeKinds = None,
          sq_includeLayers = None, sq_minScore = None, sq_limit = None\<rparr>"
      and vectorStore' = vstore2 and encodeFn' = countingEncoder and modelName = "str ''model''"
      and w' = 0] s(2)
  have 2: "hybridSearch (impactInput None\<lparr>queryText' := []\<rparr>) storeImpact (Some vstore2)
        (Some countingEncoder) 0 = (Inl QUERY_TOO_SHORT, 0)"
    by simp
  show ?thesis using s c 1 2 by simp
qed

end
